theory Spec2Isabelle
  imports Main "HOL-Library.Word"
begin

unbundle bit_operations_syntax

section \<open>Conventions\<close>

text \<open>
  The hardware abstraction layer is written for 8-bit AVR boards, where \<open>int\<close> and
  \<open>unsigned int\<close> are 16 bits wide and \<open>unsigned long\<close> is 32 bits wide (the animation code
  relies on it: "16-bit low part" in \<open>Analogue::_loop\<close>). A \<open>VPIN\<close> is a \<open>uint16_t\<close>.
  Values of type \<open>int\<close> that stay small (pin counts, written values) are modelled as HOL
  integers; where the source converts between widths the conversion is written out.

  A C++ operation whose behaviour is undefined (an array index outside the array, a shift
  by a negative amount) makes the modelled function return \<open>None\<close>.
\<close>

type_synonym VPIN = "16 word"
type_synonym uint8_t = "8 word"

text \<open>Integer division and remainder of C++ truncate towards zero.\<close>

definition cdiv :: "int \<Rightarrow> int \<Rightarrow> int" where
  "cdiv a b = sgn a * sgn b * (\<bar>a\<bar> div \<bar>b\<bar>)"

definition cmod :: "int \<Rightarrow> int \<Rightarrow> int" where
  "cmod a b = a - b * cdiv a b"

text \<open>
  What the drivers do to the hardware, in the order they do it. The bus transport
  (\<open>I2CManager\<close>) and the digital pin functions are outside the layer; only the calls are
  recorded. An \<open>I2C_read\<close> carries the bytes sent before the read.
\<close>

datatype hw_event =
    I2C_begin
  | I2C_setClock nat
  | I2C_exists int
  | I2C_write int "uint8_t list"
  | I2C_read int "uint8_t list"
  | DigitalWrite int int
  | PinModeOutput int
  | PinModeInputPullup int
  | DigitalRead int

text \<open>
  The outcome of one \<open>I2CManager.read\<close> of one byte: the number of bytes received, and the
  content of the caller's one-byte buffer after the call (when nothing was received this is
  whatever the buffer held before, for an uninitialised local an arbitrary byte).
\<close>

record i2c_reply =
  nBytes :: nat
  inBuffer :: uint8_t

text \<open>What a dispatcher call observes of its environment while it runs.\<close>

record hw_inputs =
  i2c :: i2c_reply
  digital :: int
  millis :: "32 word"

section \<open>The fields common to all devices\<close>

record IODevice_fields =
  firstID :: VPIN
  nPins :: int

section \<open>PCF8574 port expander (\<open>IO_PCF8574.cpp\<close>)\<close>

definition maxModules :: nat where
  "maxModules = 8"

definition portTickTime :: "32 word" where
  "portTickTime = 500"

definition minTicksBetweenPortReads :: uint8_t where
  "minTicksBetweenPortReads = 2"

record PCF8574 = IODevice_fields +
  I2CAddress :: uint8_t
  nModules :: uint8_t
  portInputState :: "uint8_t list"
  portOutputState :: "uint8_t list"
  portCounter :: "uint8_t list"
  counterSet :: bool
  lastLoopEntry :: "32 word"

text \<open>
  \<open>PCF8574::_write\<close>. \<open>int pin = vpin - _firstID\<close> subtracts two 16-bit unsigned values and
  reads the result as a 16-bit \<open>int\<close>. A negative \<open>pin\<close> gives a negative shift count or a
  negative array index; an index of \<open>_maxModules\<close> or more is outside the arrays.
\<close>

definition PCF8574_write :: "PCF8574 \<Rightarrow> VPIN \<Rightarrow> int \<Rightarrow> (PCF8574 \<times> hw_event list) option" where
  "PCF8574_write s vpin value =
    (let pin = sint (vpin - firstID s);
         deviceIndex = cdiv pin 8;
         pin' = cmod pin 8
     in if pin' < 0 \<or> deviceIndex < 0 \<or> int maxModules \<le> deviceIndex then None
        else
          let i = nat deviceIndex;
              mask = (push_bit (nat pin') 1 :: uint8_t);
              out = (if value \<noteq> 0 then portOutputState s ! i OR mask
                     else portOutputState s ! i AND NOT mask)
          in Some (s\<lparr>portOutputState := (portOutputState s)[i := out],
                      portCounter := (portCounter s)[i := 0]\<rparr>,
                   [I2C_write (uint (I2CAddress s) + deviceIndex) [out]]))"

text \<open>
  \<open>PCF8574::_read\<close>. The value returned by \<open>I2CManager.read\<close> is not looked at; the buffer
  is stored as it is after the call.
\<close>

definition PCF8574_read :: "PCF8574 \<Rightarrow> VPIN \<Rightarrow> i2c_reply \<Rightarrow> (int \<times> PCF8574 \<times> hw_event list) option" where
  "PCF8574_read s vpin reply =
    (let pin = sint (vpin - firstID s);
         deviceIndex = cdiv pin 8;
         pin' = cmod pin 8
     in if pin' < 0 \<or> deviceIndex < 0 \<or> int maxModules \<le> deviceIndex then None
        else
          let i = nat deviceIndex;
              mask = (push_bit (nat pin') 1 :: uint8_t);
              low = (portOutputState s ! i AND mask = 0);
              bytesToSend = (if low then 1 else 0 :: nat);
              s1 = (if low
                    then s\<lparr>portOutputState := (portOutputState s)[i := portOutputState s ! i OR mask],
                           portCounter := (portCounter s)[i := 0]\<rparr>
                    else s);
              refresh = (bytesToSend \<noteq> 0 \<or> portCounter s1 ! i = 0);
              s2 = (if refresh
                    then s1\<lparr>portInputState := (portInputState s1)[i := inBuffer reply],
                            portCounter := (portCounter s1)[i := minTicksBetweenPortReads],
                            counterSet := True\<rparr>
                    else s1);
              ev = (if refresh
                    then [I2C_read (uint (I2CAddress s) + deviceIndex)
                            (take bytesToSend [portOutputState s1 ! i])]
                    else []);
              result = (if portInputState s2 ! i AND mask \<noteq> 0 then 1 else 0)
          in Some (result, s2, ev))"

text \<open>
  The \<open>for\<close> loop of \<open>PCF8574::_loop\<close> over the modules: the first argument after
  \<open>elapsedTicks\<close> counts the iterations still to run, \<open>deviceIndex\<close> is the loop variable,
  the Boolean is the local \<open>counterSet\<close>. The counter is promoted to \<open>int\<close> for the comparison
  and the subtraction, and the difference is stored back as a \<open>uint8_t\<close>, which keeps its
  low 8 bits (also where \<open>elapsedTicks\<close> is negative and the difference is above the
  counter).
\<close>

primrec tick_counters :: "int \<Rightarrow> nat \<Rightarrow> nat \<Rightarrow> uint8_t list \<Rightarrow> bool \<Rightarrow> (uint8_t list \<times> bool) option" where
  "tick_counters elapsedTicks 0 deviceIndex cnt flag = Some (cnt, flag)"
| "tick_counters elapsedTicks (Suc k) deviceIndex cnt flag =
    (if maxModules \<le> deviceIndex then None
     else
       let c = (if uint (cnt ! deviceIndex) > elapsedTicks
                then word_of_int (uint (cnt ! deviceIndex) - elapsedTicks)
                else 0 :: uint8_t)
       in tick_counters elapsedTicks k (Suc deviceIndex) (cnt[deviceIndex := c]) (flag \<or> c > 0))"

text \<open>
  \<open>PCF8574::_loop\<close>. The elapsed time is an \<open>unsigned long\<close> difference; the number of
  elapsed ticks is stored in an \<open>int\<close>, 16 bits wide.
\<close>

definition PCF8574_loop :: "PCF8574 \<Rightarrow> 32 word \<Rightarrow> PCF8574 option" where
  "PCF8574_loop s currentMicros =
    (if currentMicros - lastLoopEntry s > portTickTime then
       (if counterSet s then
          (let elapsedTicks =
                 sint (ucast ((currentMicros - lastLoopEntry s) div portTickTime) :: 16 word)
           in case tick_counters elapsedTicks (unat (nModules s)) 0 (portCounter s) False of
                None \<Rightarrow> None
              | Some (cnt, flag) \<Rightarrow>
                  Some (s\<lparr>portCounter := cnt,
                           counterSet := (if \<not> flag then False else counterSet s),
                           lastLoopEntry := currentMicros\<rparr>))
        else Some (s\<lparr>lastLoopEntry := currentMicros\<rparr>))
     else Some s)"

text \<open>
  \<open>PCF8574::_begin\<close>: the loop over the modules, with the same conventions as above.
\<close>

primrec PCF8574_begin_modules :: "nat \<Rightarrow> nat \<Rightarrow> PCF8574 \<Rightarrow> hw_event list \<Rightarrow> (PCF8574 \<times> hw_event list) option" where
  "PCF8574_begin_modules 0 i s ev = Some (s, ev)"
| "PCF8574_begin_modules (Suc k) i s ev =
    (if maxModules \<le> i then None
     else PCF8574_begin_modules k (Suc i)
            (s\<lparr>portInputState := (portInputState s)[i := 0],
               portOutputState := (portOutputState s)[i := 0],
               portCounter := (portCounter s)[i := 0]\<rparr>)
            (ev @ [I2C_exists (uint (I2CAddress s) + int i)]))"

definition PCF8574_begin :: "PCF8574 \<Rightarrow> (PCF8574 \<times> hw_event list) option" where
  "PCF8574_begin s =
     PCF8574_begin_modules (unat (nModules s)) 0 s [I2C_begin, I2C_setClock 100000]"

text \<open>
  The object that \<open>PCF8574::createInstance\<close> fills in, before it is linked into the chain.
  \<open>raw\<close> is the object as allocated: the constructor initialises nothing, so the arrays and
  the flag hold arbitrary values; \<open>_lastLoopEntry\<close> has the initialiser 0. The module count
  is stored in a \<open>uint8_t\<close>.
\<close>

definition PCF8574_new :: "PCF8574 \<Rightarrow> VPIN \<Rightarrow> int \<Rightarrow> uint8_t \<Rightarrow> PCF8574" where
  "PCF8574_new raw vpin n addr =
     raw\<lparr>firstID := vpin,
         nPins := min n (8 * 8),
         nModules := word_of_int (cdiv (min n (8 * 8) + 7) 8),
         I2CAddress := addr,
         lastLoopEntry := 0\<rparr>"

text \<open>The arrays of a PCF8574 object have \<open>_maxModules\<close> entries each.\<close>

definition PCF8574_arrays :: "PCF8574 \<Rightarrow> bool" where
  "PCF8574_arrays s =
     (length (portInputState s) = maxModules \<and> length (portOutputState s) = maxModules
      \<and> length (portCounter s) = maxModules)"

subsection \<open>Notions used to state the properties of the PCF8574 driver\<close>

text \<open>
  The invariant of a PCF8574 object once \<open>_begin\<close> has run: the arrays have their declared
  size, the modules in use fit into them, and the flag \<open>_counterSet\<close> is set whenever the
  counter of a module in use is not zero.
\<close>

definition PCF8574_inv :: "PCF8574 \<Rightarrow> bool" where
  "PCF8574_inv s =
     (PCF8574_arrays s \<and> unat (nModules s) \<le> maxModules
      \<and> (counterSet s \<or> list_all (\<lambda>c. c = 0) (take (unat (nModules s)) (portCounter s))))"

text \<open>The module a pin belongs to, its bit mask, and whether the pin is on a module in use.\<close>

definition PCF8574_module :: "PCF8574 \<Rightarrow> VPIN \<Rightarrow> int" where
  "PCF8574_module s vpin = cdiv (sint (vpin - firstID s)) 8"


definition PCF8574_pin_ok :: "PCF8574 \<Rightarrow> VPIN \<Rightarrow> bool" where
  "PCF8574_pin_ok s vpin =
     (0 \<le> sint (vpin - firstID s) \<and> PCF8574_module s vpin < int (unat (nModules s)))"





text \<open>
  An object for the examples: four modules on pins 132 to 163, the counter of module 0 at
  2, \<open>_lastLoopEntry\<close> at 0.
\<close>

definition pcf_example :: PCF8574 where
  "pcf_example =
     \<lparr>firstID = 132, nPins = 32, I2CAddress = 32, nModules = 4,
      portInputState = [0, 0, 0, 0, 0, 0, 0, 0],
      portOutputState = [1, 0, 0, 0, 0, 0, 0, 0],
      portCounter = [2, 0, 0, 0, 0, 0, 0, 0],
      counterSet = True, lastLoopEntry = 0\<rparr>"

subsection \<open>The other revision of the driver (\<open>src/unnamed/part_000\<close>)\<close>

text \<open>
  The repository holds a second revision of the PCF8574 driver. It differs from
  \<open>IO_PCF8574.cpp\<close> in three ways that matter here: the three arrays are allocated with
  \<open>calloc\<close> for \<open>_nModules\<close> entries each, so an index is inside an array when it is below
  \<open>_nModules\<close>; \<open>_read\<close> looks at the number of bytes that the bus read returned; and
  \<open>_loop\<close> has no \<open>_counterSet\<close> flag and takes one off each counter. The same record is
  used for its objects (\<open>firstID\<close> is its \<open>_firstVpin\<close>; \<open>counterSet\<close> is not used). The
  file includes \<open>IODevice.h\<close>; the constants \<open>_portTickTime\<close> and
  \<open>_minTicksBetweenPortReads\<close> have the values that the class declaration there gives them.
\<close>

definition part000_read :: "PCF8574 \<Rightarrow> VPIN \<Rightarrow> i2c_reply \<Rightarrow> (int \<times> PCF8574 \<times> hw_event list) option" where
  "part000_read s vpin reply =
    (let pin = sint (vpin - firstID s);
         deviceIndex = cdiv pin 8;
         pin' = cmod pin 8
     in if pin' < 0 \<or> deviceIndex < 0 \<or> int (unat (nModules s)) \<le> deviceIndex then None
        else
          let i = nat deviceIndex;
              mask = (push_bit (nat pin') 1 :: uint8_t);
              low = (portOutputState s ! i AND mask = 0);
              bytesToSend = (if low then 1 else 0 :: nat);
              s1 = (if low
                    then s\<lparr>portOutputState := (portOutputState s)[i := portOutputState s ! i OR mask],
                           portCounter := (portCounter s)[i := 0]\<rparr>
                    else s);
              refresh = (bytesToSend \<noteq> 0 \<or> portCounter s1 ! i = 0);
              s2 = (if refresh
                    then s1\<lparr>portInputState :=
                              (portInputState s1)[i := (if nBytes reply = 1 then inBuffer reply else 0)],
                            portCounter := (portCounter s1)[i := minTicksBetweenPortReads]\<rparr>
                    else s1);
              ev = (if refresh
                    then [I2C_read (uint (I2CAddress s) + deviceIndex)
                            (take bytesToSend [portOutputState s1 ! i])]
                    else []);
              result = (if portInputState s2 ! i AND mask \<noteq> 0 then 1 else 0)
          in Some (result, s2, ev))"

primrec part000_tick_counters :: "nat \<Rightarrow> nat \<Rightarrow> uint8_t list \<Rightarrow> uint8_t list" where
  "part000_tick_counters 0 deviceIndex cnt = cnt"
| "part000_tick_counters (Suc k) deviceIndex cnt =
     part000_tick_counters k (Suc deviceIndex)
       (if cnt ! deviceIndex > 0 then cnt[deviceIndex := cnt ! deviceIndex - 1] else cnt)"

definition part000_loop :: "PCF8574 \<Rightarrow> 32 word \<Rightarrow> PCF8574" where
  "part000_loop s currentMicros =
    (if currentMicros - lastLoopEntry s > portTickTime
     then s\<lparr>portCounter := part000_tick_counters (unat (nModules s)) 0 (portCounter s),
            lastLoopEntry := currentMicros\<rparr>
     else s)"




text \<open>
  An object of the revision in \<open>part_000\<close>, for the same four modules: its arrays have
  four entries each.
\<close>

definition part000_example :: PCF8574 where
  "part000_example =
     \<lparr>firstID = 132, nPins = 32, I2CAddress = 32, nModules = 4,
      portInputState = [0, 0, 0, 0], portOutputState = [1, 0, 0, 0],
      portCounter = [2, 0, 0, 0], counterSet = False, lastLoopEntry = 0\<rparr>"

section \<open>Servo animation (\<open>IO_AnalogueDevice.cpp\<close>)\<close>

text \<open>
  The header \<open>IO_AnalogueDevice.h\<close>, which declares the fields of the class, the enumeration
  \<open>ProfileType\<close>, the table size and the constants \<open>_catchupSteps\<close> and \<open>refreshInterval\<close>,
  is not among the sources. The fields are taken as the code uses them: the five positions
  have the type of the parameters of \<open>_configure\<close> that are stored in them, \<open>uint16_t\<close>;
  the logical state is an integer, the step numbers are natural numbers. \<open>_catchupSteps\<close> is
  carried in the object as a field that no operation changes, so every statement below holds
  for any value of it. \<open>Unlisted\<close> stands for a byte that is none of the five profiles (the
  \<open>default\<close> branches of the code).

  \<open>writeDownstream(VPIN vpin, int value)\<close> takes the value as an \<open>int\<close>, 16 bits wide: a
  position is handed on as the signed reading of its 16 bits, so that a position of 32768 or
  more arrives as a negative value.
\<close>

datatype ProfileType = Instant | Fast | Medium | Slow | Bounce | Unlisted

record Analogue = IODevice_fields +
  devicePin :: VPIN
  activePosition :: "16 word"
  inactivePosition :: "16 word"
  currentPosition :: "16 word"
  fromPosition :: "16 word"
  toPosition :: "16 word"
  profile :: ProfileType
  stepNumber :: nat
  numSteps :: nat
  state :: int
  lastRefreshTime :: "16 word"
  catchupSteps :: nat

text \<open>
  The function \<open>map\<close> of the Arduino core, computed in \<open>long\<close>:
  \<open>(x - in_min) * (out_max - out_min) / (in_max - in_min) + out_min\<close>.
\<close>

definition map_long :: "int \<Rightarrow> int \<Rightarrow> int \<Rightarrow> int \<Rightarrow> int \<Rightarrow> int" where
  "map_long x in_min in_max out_min out_max =
     cdiv ((x - in_min) * (out_max - out_min)) (in_max - in_min) + out_min"

text \<open>The table \<open>Analogue::profile\<close> of the bounce profile, 30 bytes.\<close>

definition profile_table :: "int list" where
  "profile_table =
     [2, 3, 7, 13, 33, 50, 83, 100, 83, 75, 70, 65, 60, 60, 65, 74, 84, 100, 83, 75, 70, 70, 72,
      75, 80, 87, 92, 97, 100, 100]"

text \<open>
  \<open>Analogue::updatePosition\<close>. The result carries the call of \<open>writeDownstream\<close> that the
  function makes, if it makes one: the pin and the value, an \<open>int\<close>. The positions go into
  \<open>map\<close> as \<open>long\<close> values and what \<open>map\<close> returns is stored back in 16 bits. Reading
  the table at an index of 30 or more is outside the table.
\<close>

definition updatePosition :: "Analogue \<Rightarrow> (Analogue \<times> (VPIN \<times> int) list) option" where
  "updatePosition a =
    (if stepNumber a > numSteps a + catchupSteps a then Some (a, [])
     else
       (case
          (case profile a of
             Bounce \<Rightarrow>
               (if stepNumber a < numSteps a
                then (if stepNumber a < length profile_table
                      then Some (a\<lparr>currentPosition :=
                                     word_of_int
                                       (map_long (profile_table ! stepNumber a) 0 100
                                          (uint (fromPosition a)) (uint (toPosition a))),
                                   stepNumber := stepNumber a + 1\<rparr>, True)
                      else None)
                else Some (a, False))
           | Unlisted \<Rightarrow> Some (a, False)
           | _ \<Rightarrow>
               (if stepNumber a < numSteps a
                then Some (a\<lparr>stepNumber := stepNumber a + 1,
                              currentPosition :=
                                word_of_int
                                  (map_long (int (stepNumber a + 1)) 0 (int (numSteps a))
                                     (uint (fromPosition a)) (uint (toPosition a)))\<rparr>, True)
                else Some (a, False)))
        of
          None \<Rightarrow> None
        | Some (a1, changed) \<Rightarrow>
            (if changed then Some (a1, [(devicePin a1, sint (currentPosition a1))])
             else if stepNumber a1 < numSteps a1 + catchupSteps a1
             then Some (a1\<lparr>stepNumber := stepNumber a1 + 1\<rparr>, [])
             else if stepNumber a1 = numSteps a1 + catchupSteps a1
                     \<and> currentPosition a1 \<noteq> 4095 \<and> currentPosition a1 \<noteq> 0
             then Some (a1\<lparr>stepNumber := stepNumber a1 + 1\<rparr>, [(devicePin a1, 0)])
             else Some (a1, []))))"

text \<open>
  \<open>Analogue::_write\<close>. The last argument is what \<open>millis()\<close> returns; \<open>_lastRefreshTime\<close>
  keeps its low 16 bits.
\<close>

definition Analogue_write :: "Analogue \<Rightarrow> VPIN \<Rightarrow> int \<Rightarrow> 32 word \<Rightarrow> (Analogue \<times> (VPIN \<times> int) list) option" where
  "Analogue_write a vpin value0 ms =
    (let value = (if value0 \<noteq> 0 then 1 else value0) in
     if state a = - 1 then
       (let pos = (if state a \<noteq> 0 then activePosition a else inactivePosition a)
        in updatePosition
             (a\<lparr>currentPosition := pos, toPosition := pos, fromPosition := pos, state := value\<rparr>))
     else if state a = value then Some (a, [])
     else
       (let a1 = (case profile a of
                    Instant \<Rightarrow> a\<lparr>numSteps := 1\<rparr>
                  | Fast \<Rightarrow> a\<lparr>numSteps := 10\<rparr>
                  | Medium \<Rightarrow> a\<lparr>numSteps := 20\<rparr>
                  | Slow \<Rightarrow> a\<lparr>numSteps := 40\<rparr>
                  | Bounce \<Rightarrow> a\<lparr>numSteps := length profile_table\<rparr>
                  | Unlisted \<Rightarrow> a\<lparr>profile := Fast, numSteps := 10\<rparr>);
            a2 = a1\<lparr>state := value, stepNumber := 0, fromPosition := currentPosition a1,
                    toPosition := (if value \<noteq> 0 then activePosition a1 else inactivePosition a1)\<rparr>
        in case updatePosition a2 of
             None \<Rightarrow> None
           | Some (a3, ws) \<Rightarrow> Some (a3\<lparr>lastRefreshTime := ucast ms\<rparr>, ws)))"

text \<open>
  The object that \<open>Analogue::createInstance\<close> fills in before it links it; \<open>raw\<close> is the
  object as allocated.
\<close>

definition Analogue_new :: "Analogue \<Rightarrow> VPIN \<Rightarrow> Analogue" where
  "Analogue_new raw vpin =
     raw\<lparr>firstID := vpin, nPins := 1, stepNumber := 0, numSteps := 0, state := - 1\<rparr>"

text \<open>
  Modelled from the spec: the values of the enumeration \<open>ProfileType\<close> (declared in the
  absent header), in the order in which the spec lists the profiles, Instant first; the
  turnout code accepts the profile numbers 0 to 4.
\<close>

definition profile_of_byte :: "int \<Rightarrow> ProfileType" where
  "profile_of_byte b =
     (if b = 0 then Instant else if b = 1 then Fast else if b = 2 then Medium
      else if b = 3 then Slow else if b = 4 then Bounce else Unlisted)"

text \<open>
  \<open>Analogue::_configure\<close> with five arguments. It ends with a call of \<open>writeDownstream\<close> on
  \<open>vpin\<close> (not on \<open>devicePin\<close>), which is returned with the object; the position goes
  into the \<open>int\<close> parameter of \<open>writeDownstream\<close>. The profile is a byte, cast to
  \<open>ProfileType\<close>.
\<close>

definition Analogue_configure5 :: "Analogue \<Rightarrow> VPIN \<Rightarrow> VPIN \<Rightarrow> 16 word \<Rightarrow> 16 word \<Rightarrow> uint8_t \<Rightarrow> Analogue \<times> (VPIN \<times> int) list" where
  "Analogue_configure5 a vpin dpin act inact prof =
    (let pos = (if state a \<noteq> 0 then act else inact)
     in (a\<lparr>devicePin := dpin, activePosition := act, inactivePosition := inact,
           currentPosition := pos, profile := profile_of_byte (uint prof), stepNumber := 0,
           numSteps := 0\<rparr>,
         [(vpin, sint pos)]))"

text \<open>
  \<open>Analogue::_configure\<close> with a parameter array. The parameters are \<open>int\<close>s, converted to
  a \<open>VPIN\<close>, two \<open>uint16_t\<close> and a byte. Reading \<open>params[0..3]\<close> needs an array of four.
\<close>

definition Analogue_configure :: "Analogue \<Rightarrow> VPIN \<Rightarrow> int \<Rightarrow> int list \<Rightarrow> (bool \<times> Analogue \<times> (VPIN \<times> int) list) option" where
  "Analogue_configure a vpin paramCount params =
    (if paramCount \<noteq> 4 then Some (False, a, [])
     else if length params < 4 then None
     else
       (let (a1, ws) = Analogue_configure5 a vpin (word_of_int (params ! 0))
                         (word_of_int (params ! 1)) (word_of_int (params ! 2))
                         (word_of_int (params ! 3))
        in Some (True, a1, ws)))"

text \<open>Successive calls of \<open>updatePosition\<close>, with the downstream writes they make in order.\<close>

fun updatePositions :: "nat \<Rightarrow> Analogue \<Rightarrow> (Analogue \<times> (VPIN \<times> int) list) option" where
  "updatePositions 0 a = Some (a, [])"
| "updatePositions (Suc n) a =
     (case updatePosition a of
        None \<Rightarrow> None
      | Some (a1, w1) \<Rightarrow>
          (case updatePositions n a1 of
             None \<Rightarrow> None
           | Some (a2, w2) \<Rightarrow> Some (a2, w1 @ w2)))"

subsection \<open>Notions used to state the properties of the animation engine\<close>

text \<open>
  The position that a move of ten steps from \<open>fromPos\<close> to \<open>toPos\<close> has reached after
  \<open>k\<close> steps, as \<open>updatePosition\<close> computes and stores it:
  \<open>map(k, 0, 10, fromPos, toPos)\<close> in 16 bits.
\<close>

definition step_position :: "16 word \<Rightarrow> 16 word \<Rightarrow> nat \<Rightarrow> 16 word" where
  "step_position fromPos toPos k =
     word_of_int (map_long (int k) 0 10 (uint fromPos) (uint toPos))"

text \<open>
  Servos for the examples: one created by \<open>createInstance\<close> and configured through the
  parameter array, its logical state still unknown, with the active position 400 and the
  inactive position 200; one at rest at its inactive position 200, five steps from its
  active position 205; and one at rest at its inactive position 32760, with the active
  position 32780.
\<close>

definition servo_unknown :: Analogue where
  "servo_unknown =
     \<lparr>firstID = 100, nPins = 1, devicePin = 100, activePosition = 400, inactivePosition = 200,
      currentPosition = 400, fromPosition = 0, toPosition = 0, profile = Fast, stepNumber = 0,
      numSteps = 0, state = - 1, lastRefreshTime = 0, catchupSteps = 5\<rparr>"

definition servo_short :: Analogue where
  "servo_short =
     \<lparr>firstID = 100, nPins = 1, devicePin = 100, activePosition = 205, inactivePosition = 200,
      currentPosition = 200, fromPosition = 200, toPosition = 200, profile = Fast,
      stepNumber = 6, numSteps = 0, state = 0, lastRefreshTime = 0, catchupSteps = 5\<rparr>"

definition servo_short_started :: Analogue where
  "servo_short_started =
     servo_short\<lparr>numSteps := 10, state := 1, stepNumber := 1, fromPosition := 200,
                 toPosition := 205, currentPosition := 200, lastRefreshTime := 0\<rparr>"

definition servo_far :: Analogue where
  "servo_far =
     \<lparr>firstID = 100, nPins = 1, devicePin = 100, activePosition = 32780,
      inactivePosition = 32760, currentPosition = 32760, fromPosition = 32760,
      toPosition = 32760, profile = Fast, stepNumber = 6, numSteps = 0, state = 0,
      lastRefreshTime = 0, catchupSteps = 5\<rparr>"

definition servo_far_started :: Analogue where
  "servo_far_started =
     servo_far\<lparr>numSteps := 10, state := 1, stepNumber := 1, fromPosition := 32760,
               toPosition := 32780, currentPosition := 32762, lastRefreshTime := 0\<rparr>"

section \<open>MCP23017 port expander (\<open>IO_MCP23017.cpp\<close>)\<close>

record MCP23017 = IODevice_fields +
  mcp_I2CAddress :: uint8_t
  mcp_nModules :: uint8_t
  currentPortStateA :: "uint8_t list"
  currentPortStateB :: "uint8_t list"
  portModeA :: "uint8_t list"
  portModeB :: "uint8_t list"
  portPullupA :: "uint8_t list"
  portPullupB :: "uint8_t list"

definition IODIRA :: uint8_t where "IODIRA = 0x00"
definition IODIRB :: uint8_t where "IODIRB = 0x01"
definition GPIOA :: uint8_t where "GPIOA = 0x12"
definition GPIOB :: uint8_t where "GPIOB = 0x13"
definition GPPUA :: uint8_t where "GPPUA = 0x0C"
definition GPPUB :: uint8_t where "GPPUB = 0x0D"

text \<open>
  The object that \<open>MCP23017::createInstance\<close> fills in. The pin count is clamped; the module
  count is computed from the argument \<open>nPins\<close>, not from the clamped count, and stored in
  a \<open>uint8_t\<close>.
\<close>

definition MCP23017_new :: "MCP23017 \<Rightarrow> VPIN \<Rightarrow> int \<Rightarrow> uint8_t \<Rightarrow> MCP23017" where
  "MCP23017_new raw vpin n addr =
     raw\<lparr>firstID := vpin,
         nPins := min n (16 * 8),
         mcp_nModules := word_of_int (cdiv (n + 15) 16),
         mcp_I2CAddress := addr\<rparr>"

text \<open>
  \<open>MCP23017::_begin\<close>: the loop over the modules, as for the PCF8574. The six arrays have
  \<open>_maxModules\<close> entries each.
\<close>

primrec MCP23017_begin_modules :: "nat \<Rightarrow> nat \<Rightarrow> MCP23017 \<Rightarrow> hw_event list \<Rightarrow> (MCP23017 \<times> hw_event list) option" where
  "MCP23017_begin_modules 0 i s ev = Some (s, ev)"
| "MCP23017_begin_modules (Suc k) i s ev =
    (if maxModules \<le> i then None
     else
       (let addr = uint (mcp_I2CAddress s) + int i
        in MCP23017_begin_modules k (Suc i)
             (s\<lparr>portModeA := (portModeA s)[i := 0xff],
                portModeB := (portModeB s)[i := 0xff],
                portPullupA := (portPullupA s)[i := 0x00],
                portPullupB := (portPullupB s)[i := 0x00],
                currentPortStateA := (currentPortStateA s)[i := 0x00],
                currentPortStateB := (currentPortStateB s)[i := 0x00]\<rparr>)
             (ev @ [I2C_exists addr,
                    I2C_write addr [GPIOA, 0x00], I2C_write addr [GPIOB, 0x00],
                    I2C_write addr [IODIRA, 0xff], I2C_write addr [IODIRB, 0xff],
                    I2C_write addr [GPPUA, 0x00], I2C_write addr [GPPUB, 0x00]])))"

definition MCP23017_begin :: "MCP23017 \<Rightarrow> (MCP23017 \<times> hw_event list) option" where
  "MCP23017_begin s =
     MCP23017_begin_modules (unat (mcp_nModules s)) 0 s [I2C_begin, I2C_setClock 1000000]"

text \<open>
  \<open>MCP23017::_write\<close>. The bank is chosen by \<open>deviceIndex < 8\<close>; the other branch indexes
  the arrays at 8 or more. The registers are written at \<open>_I2CAddress\<close> itself.
\<close>

definition MCP23017_write :: "MCP23017 \<Rightarrow> VPIN \<Rightarrow> int \<Rightarrow> (MCP23017 \<times> hw_event list) option" where
  "MCP23017_write s vpin value =
    (let pin = sint (vpin - firstID s);
         deviceIndex = cdiv pin 16;
         pin' = cmod pin 16
     in if cmod pin' 8 < 0 \<or> deviceIndex < 0 \<or> \<not> deviceIndex < 8 then None
        else
          let i = nat deviceIndex;
              mask = (push_bit (nat (cmod pin' 8)) 1 :: uint8_t);
              addr = uint (mcp_I2CAddress s);
              st = (if value \<noteq> 0 then currentPortStateA s ! i OR mask
                    else currentPortStateA s ! i AND NOT mask);
              s1 = s\<lparr>currentPortStateA := (currentPortStateA s)[i := st]\<rparr>
          in if portModeA s1 ! i AND mask \<noteq> 0
             then Some (s1\<lparr>portModeA := (portModeA s1)[i := portModeA s1 ! i AND NOT mask]\<rparr>,
                        [I2C_write addr [GPIOA, st],
                         I2C_write addr [IODIRA, portModeA s1 ! i AND NOT mask]])
             else Some (s1, [I2C_write addr [GPIOA, st]]))"

text \<open>
  \<open>MCP23017::_read\<close>. The bank is chosen by \<open>pin < 8\<close>. The byte returned by
  \<open>readRegister\<close> is its local buffer after the bus read.
\<close>

definition MCP23017_read :: "MCP23017 \<Rightarrow> VPIN \<Rightarrow> i2c_reply \<Rightarrow> (int \<times> MCP23017 \<times> hw_event list) option" where
  "MCP23017_read s vpin reply =
    (let pin = sint (vpin - firstID s);
         deviceIndex = cdiv pin 16;
         pin' = cmod pin 16
     in if cmod pin' 8 < 0 \<or> deviceIndex < 0 \<or> int maxModules \<le> deviceIndex then None
        else
          let i = nat deviceIndex;
              mask = (push_bit (nat (cmod pin' 8)) 1 :: uint8_t);
              addr = uint (mcp_I2CAddress s);
              result = (if inBuffer reply AND mask \<noteq> 0 then 1 else 0)
          in if pin' < 8 then
               (let m = portModeA s ! i OR mask;
                    p = portPullupA s ! i OR mask
                in Some (result,
                         s\<lparr>portModeA := (portModeA s)[i := m], portPullupA := (portPullupA s)[i := p]\<rparr>,
                         (if portModeA s ! i AND mask = 0 then [I2C_write addr [IODIRA, m]] else [])
                         @ (if portPullupA s ! i AND mask = 0 then [I2C_write addr [GPPUA, p]] else [])
                         @ [I2C_read addr [GPIOA]]))
             else
               (let m = portModeB s ! i OR mask;
                    p = portPullupB s ! i OR mask
                in Some (result,
                         s\<lparr>portModeB := (portModeB s)[i := m], portPullupB := (portPullupB s)[i := p]\<rparr>,
                         (if portModeB s ! i AND mask = 0 then [I2C_write addr [IODIRB, m]] else [])
                         @ (if portPullupB s ! i AND mask = 0 then [I2C_write addr [GPPUB, p]] else [])
                         @ [I2C_read addr [GPIOB]])))"

text \<open>An MCP23017 object as allocated, for the examples (the content does not matter).\<close>

definition mcp_raw :: MCP23017 where
  "mcp_raw =
     \<lparr>firstID = 0, nPins = 0, mcp_I2CAddress = 0, mcp_nModules = 0,
      currentPortStateA = [0, 0, 0, 0, 0, 0, 0, 0], currentPortStateB = [0, 0, 0, 0, 0, 0, 0, 0],
      portModeA = [0, 0, 0, 0, 0, 0, 0, 0], portModeB = [0, 0, 0, 0, 0, 0, 0, 0],
      portPullupA = [0, 0, 0, 0, 0, 0, 0, 0], portPullupB = [0, 0, 0, 0, 0, 0, 0, 0]\<rparr>"

section \<open>The device chain and the dispatcher (\<open>IODevice.cpp\<close>)\<close>

text \<open>
  \<open>ArduinoPins::_write\<close> and \<open>ArduinoPins::_read\<close>: the pin number is the VPIN read as an
  \<open>int\<close>; the value read is what \<open>digitalRead\<close> returns.
\<close>

definition ArduinoPins_write :: "VPIN \<Rightarrow> int \<Rightarrow> hw_event list" where
  "ArduinoPins_write vpin value = [DigitalWrite (sint vpin) value, PinModeOutput (sint vpin)]"

definition ArduinoPins_read :: "VPIN \<Rightarrow> int \<Rightarrow> int \<times> hw_event list" where
  "ArduinoPins_read vpin level =
     (level, [PinModeInputPullup (sint vpin), DigitalRead (sint vpin)])"

text \<open>
  A device is an object of one of the classes whose code is in the sources. The chain is
  the list of the devices from \<open>_firstDevice\<close> along \<open>_nextDevice\<close>.
\<close>

datatype IODevice =
    ArduinoPinsDev IODevice_fields
  | PCF8574Dev PCF8574
  | MCP23017Dev MCP23017
  | AnalogueDev Analogue

fun dev_firstID :: "IODevice \<Rightarrow> VPIN" where
  "dev_firstID (ArduinoPinsDev f) = firstID f"
| "dev_firstID (PCF8574Dev s) = firstID s"
| "dev_firstID (MCP23017Dev s) = firstID s"
| "dev_firstID (AnalogueDev a) = firstID a"

fun dev_nPins :: "IODevice \<Rightarrow> int" where
  "dev_nPins (ArduinoPinsDev f) = nPins f"
| "dev_nPins (PCF8574Dev s) = nPins s"
| "dev_nPins (MCP23017Dev s) = nPins s"
| "dev_nPins (AnalogueDev a) = nPins a"

text \<open>
  \<open>IODevice::owns\<close>. The sum \<open>_firstID + _nPins\<close> of a \<open>uint16_t\<close> and an \<open>int\<close> is an
  unsigned 16-bit value, and both comparisons are unsigned.
\<close>

definition owns :: "IODevice \<Rightarrow> VPIN \<Rightarrow> bool" where
  "owns dev vpin =
     (dev_firstID dev \<le> vpin
      \<and> uint vpin < (uint (dev_firstID dev) + dev_nPins dev) mod 65536)"

text \<open>\<open>_isDeletable\<close>: only the class \<open>Analogue\<close> overrides the default.\<close>

fun isDeletable :: "IODevice \<Rightarrow> bool" where
  "isDeletable (AnalogueDev a) = True"
| "isDeletable dev = False"

fun IODevice_exists :: "IODevice list \<Rightarrow> VPIN \<Rightarrow> bool" where
  "IODevice_exists [] vpin = False"
| "IODevice_exists (dev # rest) vpin = (if owns dev vpin then True else IODevice_exists rest vpin)"

text \<open>
  \<open>IODevice::remove\<close>. A device that owns the pin but is not deletable is passed over, and
  the loop goes on to the next device.
\<close>

fun IODevice_remove :: "IODevice list \<Rightarrow> VPIN \<Rightarrow> IODevice list" where
  "IODevice_remove [] vpin = []"
| "IODevice_remove (dev # rest) vpin =
     (if owns dev vpin \<and> isDeletable dev then rest else dev # IODevice_remove rest vpin)"

text \<open>
  \<open>IODevice::write\<close>, with \<open>_write\<close> of the device that is found. An \<open>Analogue\<close> device
  passes a position on with \<open>writeDownstream\<close>, which is the same search over the devices
  after it. The result is the chain after the call and what was done to the hardware.
\<close>

fun IODevice_write :: "IODevice list \<Rightarrow> VPIN \<Rightarrow> int \<Rightarrow> hw_inputs \<Rightarrow> (IODevice list \<times> hw_event list) option" where
  "IODevice_write [] vpin value hw = Some ([], [])"
| "IODevice_write (dev # rest) vpin value hw =
    (if owns dev vpin then
       (case dev of
          ArduinoPinsDev f \<Rightarrow> Some (dev # rest, ArduinoPins_write vpin value)
        | PCF8574Dev s \<Rightarrow>
            (case PCF8574_write s vpin value of
               None \<Rightarrow> None
             | Some (s', ev) \<Rightarrow> Some (PCF8574Dev s' # rest, ev))
        | MCP23017Dev s \<Rightarrow>
            (case MCP23017_write s vpin value of
               None \<Rightarrow> None
             | Some (s', ev) \<Rightarrow> Some (MCP23017Dev s' # rest, ev))
        | AnalogueDev a \<Rightarrow>
            (case Analogue_write a vpin value (millis hw) of
               None \<Rightarrow> None
             | Some (a', []) \<Rightarrow> Some (AnalogueDev a' # rest, [])
             | Some (a', (pin, v) # _) \<Rightarrow>
                 (case IODevice_write rest pin v hw of
                    None \<Rightarrow> None
                  | Some (rest', ev) \<Rightarrow> Some (AnalogueDev a' # rest', ev))))
     else
       (case IODevice_write rest vpin value hw of
          None \<Rightarrow> None
        | Some (rest', ev) \<Rightarrow> Some (dev # rest', ev)))"

text \<open>\<open>IODevice::read\<close>; the \<open>int\<close> that \<open>_read\<close> returns is converted to \<open>bool\<close>.\<close>

fun IODevice_read :: "IODevice list \<Rightarrow> VPIN \<Rightarrow> hw_inputs \<Rightarrow> (bool \<times> IODevice list \<times> hw_event list) option" where
  "IODevice_read [] vpin hw = Some (False, [], [])"
| "IODevice_read (dev # rest) vpin hw =
    (if owns dev vpin then
       (case dev of
          ArduinoPinsDev f \<Rightarrow>
            (case ArduinoPins_read vpin (digital hw) of
               (r, ev) \<Rightarrow> Some (r \<noteq> 0, dev # rest, ev))
        | PCF8574Dev s \<Rightarrow>
            (case PCF8574_read s vpin (i2c hw) of
               None \<Rightarrow> None
             | Some (r, s', ev) \<Rightarrow> Some (r \<noteq> 0, PCF8574Dev s' # rest, ev))
        | MCP23017Dev s \<Rightarrow>
            (case MCP23017_read s vpin (i2c hw) of
               None \<Rightarrow> None
             | Some (r, s', ev) \<Rightarrow> Some (r \<noteq> 0, MCP23017Dev s' # rest, ev))
        | AnalogueDev a \<Rightarrow> Some (False, dev # rest, []))
     else
       (case IODevice_read rest vpin hw of
          None \<Rightarrow> None
        | Some (r, rest', ev) \<Rightarrow> Some (r, dev # rest', ev)))"

text \<open>
  \<open>IODevice::configure\<close>. Only \<open>Analogue\<close> overrides \<open>_configure\<close>; the default returns
  \<open>true\<close>.
\<close>

fun IODevice_configure :: "IODevice list \<Rightarrow> VPIN \<Rightarrow> int \<Rightarrow> int list \<Rightarrow> hw_inputs \<Rightarrow> (bool \<times> IODevice list \<times> hw_event list) option" where
  "IODevice_configure [] vpin paramCount params hw = Some (False, [], [])"
| "IODevice_configure (dev # rest) vpin paramCount params hw =
    (if owns dev vpin then
       (case dev of
          AnalogueDev a \<Rightarrow>
            (case Analogue_configure a vpin paramCount params of
               None \<Rightarrow> None
             | Some (r, a', []) \<Rightarrow> Some (r, AnalogueDev a' # rest, [])
             | Some (r, a', (pin, v) # _) \<Rightarrow>
                 (case IODevice_write rest pin v hw of
                    None \<Rightarrow> None
                  | Some (rest', ev) \<Rightarrow> Some (r, AnalogueDev a' # rest', ev)))
        | _ \<Rightarrow> Some (True, dev # rest, []))
     else
       (case IODevice_configure rest vpin paramCount params hw of
          None \<Rightarrow> None
        | Some (r, rest', ev) \<Rightarrow> Some (r, dev # rest', ev)))"

text \<open>\<open>_begin\<close> of a device, and \<open>IODevice::addDevice\<close>: link at the head, then initialise.\<close>

fun dev_begin :: "IODevice \<Rightarrow> (IODevice \<times> hw_event list) option" where
  "dev_begin (PCF8574Dev s) =
     (case PCF8574_begin s of None \<Rightarrow> None | Some (s', ev) \<Rightarrow> Some (PCF8574Dev s', ev))"
| "dev_begin (MCP23017Dev s) =
     (case MCP23017_begin s of None \<Rightarrow> None | Some (s', ev) \<Rightarrow> Some (MCP23017Dev s', ev))"
| "dev_begin dev = Some (dev, [])"

definition addDevice :: "IODevice \<Rightarrow> IODevice list \<Rightarrow> (IODevice list \<times> hw_event list) option" where
  "addDevice newDevice chain =
     (case dev_begin newDevice of
        None \<Rightarrow> None
      | Some (dev, ev) \<Rightarrow> Some (dev # chain, ev))"

text \<open>The factory functions of the four classes.\<close>

definition ArduinoPins_create :: "IODevice list \<Rightarrow> VPIN \<Rightarrow> int \<Rightarrow> (IODevice list \<times> hw_event list) option" where
  "ArduinoPins_create chain vpin n = addDevice (ArduinoPinsDev \<lparr>firstID = vpin, nPins = n\<rparr>) chain"

definition PCF8574_createInstance :: "PCF8574 \<Rightarrow> IODevice list \<Rightarrow> VPIN \<Rightarrow> int \<Rightarrow> uint8_t \<Rightarrow> (IODevice list \<times> hw_event list) option" where
  "PCF8574_createInstance raw chain vpin n addr =
     (case PCF8574_begin (PCF8574_new raw vpin n addr) of
        None \<Rightarrow> None
      | Some (s1, ev1) \<Rightarrow>
          (case PCF8574_begin s1 of
             None \<Rightarrow> None
           | Some (s2, ev2) \<Rightarrow> Some (PCF8574Dev s2 # chain, ev1 @ ev2)))"

definition MCP23017_createInstance :: "MCP23017 \<Rightarrow> IODevice list \<Rightarrow> VPIN \<Rightarrow> int \<Rightarrow> uint8_t \<Rightarrow> (IODevice list \<times> hw_event list) option" where
  "MCP23017_createInstance raw chain vpin n addr =
     addDevice (MCP23017Dev (MCP23017_new raw vpin n addr)) chain"

definition Analogue_createInstance :: "Analogue \<Rightarrow> IODevice list \<Rightarrow> VPIN \<Rightarrow> IODevice list" where
  "Analogue_createInstance raw chain vpin =
     AnalogueDev (Analogue_new raw vpin) # IODevice_remove chain vpin"

text \<open>
  \<open>Analogue::create\<close>: the new device gets its initial state, a byte, and is configured;
  the position it is configured with goes downstream.
\<close>

definition Analogue_create :: "Analogue \<Rightarrow> IODevice list \<Rightarrow> VPIN \<Rightarrow> VPIN \<Rightarrow> 16 word \<Rightarrow> 16 word \<Rightarrow> uint8_t \<Rightarrow> uint8_t \<Rightarrow> hw_inputs \<Rightarrow> (IODevice list \<times> hw_event list) option" where
  "Analogue_create raw chain vpin dpin act inact prof initialState hw =
     (case Analogue_configure5 ((Analogue_new raw vpin)\<lparr>state := uint initialState\<rparr>)
             vpin dpin act inact prof of
        (a, ws) \<Rightarrow>
          (case ws of
             [] \<Rightarrow> Some (AnalogueDev a # IODevice_remove chain vpin, [])
           | (pin, v) # _ \<Rightarrow>
               (case IODevice_write (IODevice_remove chain vpin) pin v hw of
                  None \<Rightarrow> None
                | Some (rest', ev) \<Rightarrow> Some (AnalogueDev a # rest', ev))))"

subsection \<open>Notions used to state the properties of the dispatcher\<close>




text \<open>
  A call of one of the factory functions, with its arguments (\<open>raw\<close> is the object as
  allocated), and what the call does to the chain.
\<close>

datatype creation =
    CreateArduinoPins VPIN int
  | CreatePCF8574 PCF8574 VPIN int uint8_t
  | CreateMCP23017 MCP23017 VPIN int uint8_t
  | CreateAnalogueInstance Analogue VPIN
  | CreateAnalogue Analogue VPIN VPIN "16 word" "16 word" uint8_t uint8_t

fun create_device :: "creation \<Rightarrow> IODevice list \<Rightarrow> hw_inputs \<Rightarrow> (IODevice list \<times> hw_event list) option" where
  "create_device (CreateArduinoPins vpin n) chain hw = ArduinoPins_create chain vpin n"
| "create_device (CreatePCF8574 raw vpin n addr) chain hw =
     PCF8574_createInstance raw chain vpin n addr"
| "create_device (CreateMCP23017 raw vpin n addr) chain hw =
     MCP23017_createInstance raw chain vpin n addr"
| "create_device (CreateAnalogueInstance raw vpin) chain hw =
     Some (Analogue_createInstance raw chain vpin, [])"
| "create_device (CreateAnalogue raw vpin dpin act inact prof initialState) chain hw =
     Analogue_create raw chain vpin dpin act inact prof initialState hw"

text \<open>
  The deletable devices of a chain that own a pin, in chain order; and the property of a
  chain that no pin has more than one of them.
\<close>

definition deletable_owners :: "IODevice list \<Rightarrow> VPIN \<Rightarrow> IODevice list" where
  "deletable_owners chain vpin = filter (\<lambda>dev. owns dev vpin \<and> isDeletable dev) chain"

definition one_deletable_owner :: "IODevice list \<Rightarrow> bool" where
  "one_deletable_owner chain = (\<forall>vpin. length (deletable_owners chain vpin) \<le> 1)"

text \<open>
  What the owning and the removal of a device depend on: its first pin, its pin count and
  whether it is deletable.
\<close>

definition dev_shape :: "IODevice \<Rightarrow> VPIN \<times> int \<times> bool" where
  "dev_shape dev = (dev_firstID dev, dev_nPins dev, isDeletable dev)"

text \<open>Devices for the examples: the Arduino pins 2 to 49, and four pins from 100.\<close>

definition arduino_2_49 :: IODevice where
  "arduino_2_49 = ArduinoPinsDev \<lparr>firstID = 2, nPins = 48\<rparr>"

definition arduino_100_103 :: IODevice where
  "arduino_100_103 = ArduinoPinsDev \<lparr>firstID = 100, nPins = 4\<rparr>"

definition hw_example :: hw_inputs where
  "hw_example = \<lparr>i2c = \<lparr>nBytes = 1, inBuffer = 0\<rparr>, digital = 1, millis = 0\<rparr>"

section \<open>Properties of the model\<close>

subsection \<open>Integer conversions\<close>

lemma dec_unat:
  fixes c :: uint8_t
  assumes "0 \<le> et"
  shows "unat (if uint c > et then word_of_int (uint c - et) else 0 :: uint8_t) = unat c - nat et"
proof (cases "uint c > et")
  case True
  have u: "uint c = int (unat c)" by simp
  from True assms have lt: "nat et < unat c" unfolding u by linarith
  have "uint c - et = int (unat c - nat et)" unfolding u using lt assms by linarith
  then have "(word_of_int (uint c - et) :: uint8_t) = word_of_nat (unat c - nat et)"
    by (simp only: word_of_int_nat[symmetric] of_int_of_nat_eq)
  moreover have "unat (word_of_nat (unat c - nat et) :: uint8_t) = unat c - nat et"
    by (rule le_unat_uoi[of _ c]) simp
  ultimately show ?thesis using True by simp
next
  case False
  have u: "uint c = int (unat c)" by simp
  from False assms have "unat c \<le> nat et" unfolding u by linarith
  with False show ?thesis by simp
qed

lemma tick_counters_spec:
  fixes cnt :: "uint8_t list"
  assumes "0 \<le> et" "i + k \<le> maxModules" 
  shows "\<exists>cnt' flag'. tick_counters et k i cnt flag = Some (cnt', flag')
           \<and> length cnt' = length cnt
           \<and> (\<forall>j < length cnt. unat (cnt' ! j) = (if i \<le> j \<and> j < i + k then unat (cnt ! j) - nat et else unat (cnt ! j)))
           \<and> (flag \<longrightarrow> flag')
           \<and> (\<forall>j < length cnt. i \<le> j \<and> j < i + k \<and> cnt' ! j \<noteq> 0 \<longrightarrow> flag')"
  using assms(2)
proof (induction k arbitrary: i cnt flag)
  case 0
  then show ?case by auto
next
  case (Suc k)
  let ?c = "(if uint (cnt ! i) > et then word_of_int (uint (cnt ! i) - et) else 0 :: uint8_t)"
  from Suc.prems have i: "i < maxModules" and le: "Suc i + k \<le> maxModules" by simp_all
  from Suc.IH[OF le, of "cnt[i := ?c]" "flag \<or> ?c > 0"]
  obtain cnt' flag' where
    r: "tick_counters et k (Suc i) (cnt[i := ?c]) (flag \<or> ?c > 0) = Some (cnt', flag')"
    and len: "length cnt' = length cnt"
    and vals: "\<forall>j < length cnt. unat (cnt' ! j) = (if Suc i \<le> j \<and> j < Suc i + k then unat ((cnt[i := ?c]) ! j) - nat et else unat ((cnt[i := ?c]) ! j))"
    and fl1: "(flag \<or> ?c > 0) \<longrightarrow> flag'"
    and fl2: "\<forall>j < length cnt. Suc i \<le> j \<and> j < Suc i + k \<and> cnt' ! j \<noteq> 0 \<longrightarrow> flag'"
    by auto
  have eq: "tick_counters et (Suc k) i cnt flag = Some (cnt', flag')"
    using i r by (simp add: Let_def)
  have v: "\<forall>j < length cnt. unat (cnt' ! j) = (if i \<le> j \<and> j < i + Suc k then unat (cnt ! j) - nat et else unat (cnt ! j))"
  proof (intro allI impI)
    fix j assume j: "j < length cnt"
    show "unat (cnt' ! j) = (if i \<le> j \<and> j < i + Suc k then unat (cnt ! j) - nat et else unat (cnt ! j))"
    proof (cases "j = i")
      case True
      with vals j have "unat (cnt' ! j) = unat ?c" by simp
      with dec_unat[OF assms(1), of "cnt ! i"] True show ?thesis by simp
    next
      case False
      with vals j show ?thesis by auto
    qed
  qed
  have ci: "cnt' ! i = ?c" if a: "i < length cnt"
  proof -
    from a vals have "unat (cnt' ! i) = unat ?c" by simp
    then show ?thesis by (simp only: word_unat_eq_iff) 
  qed
  have f2: "\<forall>j < length cnt. i \<le> j \<and> j < i + Suc k \<and> cnt' ! j \<noteq> 0 \<longrightarrow> flag'"
  proof (intro allI impI)
    fix j assume j: "j < length cnt" and h: "i \<le> j \<and> j < i + Suc k \<and> cnt' ! j \<noteq> 0"
    show flag'
    proof (cases "j = i")
      case True
      with ci j h have "?c \<noteq> 0" by simp
      then have "?c > 0" by (simp add: word_greater_zero_iff)
      with fl1 show ?thesis by blast
    next
      case False
      with h j fl2 show ?thesis by auto
    qed
  qed
  from eq len v fl1 f2 show ?case by blast
qed

lemma sint16_small:
  fixes w :: "16 word"
  assumes "unat w < 32768"
  shows "sint w = int (unat w)"
proof -
  have u: "uint w = int (unat w)" by simp
  have "sint w = signed_take_bit (LENGTH(16) - Suc 0) (uint w)" by (rule sint_uint)
  also have "\<dots> = uint w"
    by (rule signed_take_bit_int_eq_self) (use assms in \<open>simp_all add: u del: of_nat_unat\<close>)
  finally show ?thesis by simp
qed

lemma elapsed_int16:
  fixes q :: "32 word"
  assumes "unat q < 32768"
  shows "sint (ucast q :: 16 word) = int (unat q)"
proof -
  have "unat (ucast q :: 16 word) = take_bit LENGTH(16) (unat q)"
    by (rule unsigned_ucast_eq)
  also have "\<dots> = unat q" using assms by (simp add: take_bit_nat_eq_self)
  finally have e: "unat (ucast q :: 16 word) = unat q" .
  with assms have "unat (ucast q :: 16 word) < 32768" by simp
  from sint16_small[OF this] e show ?thesis by simp
qed

lemma inv_zero_iff:
  "PCF8574_inv s \<longleftrightarrow>
     (PCF8574_arrays s \<and> unat (nModules s) \<le> maxModules
      \<and> (counterSet s \<or> (\<forall>j < unat (nModules s). portCounter s ! j = 0)))"
  by (auto simp: PCF8574_inv_def PCF8574_arrays_def list_all_length)

lemma PCF8574_loop_step:
  assumes inv: "PCF8574_inv s"
    and gap: "portTickTime < currentMicros - lastLoopEntry s"
    and rng: "unat ((currentMicros - lastLoopEntry s) div portTickTime) < 32768"
  shows "\<exists>cnt fl. PCF8574_loop s currentMicros
            = Some (s\<lparr>portCounter := cnt, counterSet := fl, lastLoopEntry := currentMicros\<rparr>)
          \<and> PCF8574_inv (s\<lparr>portCounter := cnt, counterSet := fl, lastLoopEntry := currentMicros\<rparr>)
          \<and> length cnt = length (portCounter s)
          \<and> (\<forall>j < length cnt. unat (cnt ! j) 
                = (if j < unat (nModules s) then unat (portCounter s ! j)
                   - unat ((currentMicros - lastLoopEntry s) div portTickTime) else unat (portCounter s ! j)))"
proof -
  let ?q = "(currentMicros - lastLoopEntry s) div portTickTime"
  from inv have arr: "PCF8574_arrays s" and nm: "unat (nModules s) \<le> maxModules"
    and z: "counterSet s \<or> (\<forall>j < unat (nModules s). portCounter s ! j = 0)"
    by (simp_all add: inv_zero_iff)
  from arr have len: "length (portCounter s) = maxModules" by (simp add: PCF8574_arrays_def)
  show ?thesis
  proof (cases "counterSet s")
    case False
    with z have zz: "\<forall>j < unat (nModules s). portCounter s ! j = 0" by simp
    have l: "PCF8574_loop s currentMicros = Some (s\<lparr>lastLoopEntry := currentMicros\<rparr>)"
      using gap False by (simp add: PCF8574_loop_def)
    have e: "s\<lparr>lastLoopEntry := currentMicros\<rparr> = s\<lparr>portCounter := portCounter s, counterSet := False, lastLoopEntry := currentMicros\<rparr>"
      using False by simp
    have i: "PCF8574_inv (s\<lparr>lastLoopEntry := currentMicros\<rparr>)"
      using inv by (simp add: PCF8574_inv_def PCF8574_arrays_def)
    show ?thesis
      apply (rule exI[of _ "portCounter s"], rule exI[of _ False])
      using l e i zz by auto
  next
    case True
    have et: "sint (ucast ?q :: 16 word) = int (unat ?q)" by (rule elapsed_int16[OF rng])
    have "0 \<le> int (unat ?q)" by simp
    from tick_counters_spec[OF this, of 0 "unat (nModules s)" "portCounter s" False] nm
    obtain cnt' flag' where
      r: "tick_counters (int (unat ?q)) (unat (nModules s)) 0 (portCounter s) False = Some (cnt', flag')"
      and len': "length cnt' = length (portCounter s)"
      and vals: "\<forall>j < length (portCounter s). unat (cnt' ! j) = (if j < unat (nModules s) then unat (portCounter s ! j) - unat ?q else unat (portCounter s ! j))"
      and fl: "\<forall>j < length (portCounter s). j < unat (nModules s) \<and> cnt' ! j \<noteq> 0 \<longrightarrow> flag'"
      by auto
    have l: "PCF8574_loop s currentMicros = Some (s\<lparr>portCounter := cnt', counterSet := flag', lastLoopEntry := currentMicros\<rparr>)"
      using gap True r et by (simp add: PCF8574_loop_def Let_def)
    have i: "PCF8574_inv (s\<lparr>portCounter := cnt', counterSet := flag', lastLoopEntry := currentMicros\<rparr>)"
      using arr nm len len' fl by (auto simp: inv_zero_iff PCF8574_arrays_def)
    show ?thesis
      apply (rule exI[of _ cnt'], rule exI[of _ flag'])
      using l i len' vals by auto
  qed
qed

subsection \<open>The PCF8574 driver, step by step\<close>

lemma cdiv_nonneg: "0 \<le> a \<Longrightarrow> cdiv a 8 = a div 8"
  by (cases "a = 0") (simp_all add: cdiv_def)









lemma gap_nat: "(portTickTime < (x::32 word)) = (500 < unat x)"
  by (simp add: portTickTime_def word_less_nat_alt)

lemma ticks_nat: "unat ((x::32 word) div portTickTime) = unat x div 500"
  by (simp add: portTickTime_def unat_div)

text \<open>
  \<open>_loop\<close> keeps the invariant whatever the two clock values are.
\<close>

lemma tick_counters_flag:
  assumes "i + k \<le> maxModules"
  shows "\<exists>cnt' flag'. tick_counters et k i cnt flag = Some (cnt', flag')
           \<and> length cnt' = length cnt
           \<and> (flag \<longrightarrow> flag')
           \<and> (\<forall>j < length cnt. i \<le> j \<and> j < i + k \<and> cnt' ! j \<noteq> 0 \<longrightarrow> flag')
           \<and> (\<forall>j < length cnt. j < i \<longrightarrow> cnt' ! j = cnt ! j)"
  using assms
proof (induction k arbitrary: i cnt flag)
  case 0
  then show ?case by auto
next
  case (Suc k)
  let ?c = "(if uint (cnt ! i) > et then word_of_int (uint (cnt ! i) - et) else 0 :: uint8_t)"
  from Suc.prems have i: "i < maxModules" and le: "Suc i + k \<le> maxModules" by simp_all
  from Suc.IH[OF le, of "cnt[i := ?c]" "flag \<or> ?c > 0"]
  obtain cnt' flag' where
    r: "tick_counters et k (Suc i) (cnt[i := ?c]) (flag \<or> ?c > 0) = Some (cnt', flag')"
    and len: "length cnt' = length cnt"
    and fl1: "(flag \<or> ?c > 0) \<longrightarrow> flag'"
    and fl2: "\<forall>j < length cnt. Suc i \<le> j \<and> j < Suc i + k \<and> cnt' ! j \<noteq> 0 \<longrightarrow> flag'"
    and keep: "\<forall>j < length cnt. j < Suc i \<longrightarrow> cnt' ! j = (cnt[i := ?c]) ! j"
    by auto
  have eq: "tick_counters et (Suc k) i cnt flag = Some (cnt', flag')"
    using i r by (simp add: Let_def)
  have f2: "\<forall>j < length cnt. i \<le> j \<and> j < i + Suc k \<and> cnt' ! j \<noteq> 0 \<longrightarrow> flag'"
  proof (intro allI impI)
    fix j assume j: "j < length cnt" and h: "i \<le> j \<and> j < i + Suc k \<and> cnt' ! j \<noteq> 0"
    show flag'
    proof (cases "j = i")
      case True
      with keep j have "cnt' ! i = ?c" by simp
      with True h have "?c \<noteq> 0" by simp
      then have "?c > 0" by (simp add: word_greater_zero_iff)
      with fl1 show ?thesis by blast
    next
      case False
      with h j fl2 show ?thesis by auto
    qed
  qed
  have k2: "\<forall>j < length cnt. j < i \<longrightarrow> cnt' ! j = cnt ! j"
    using keep by auto
  from eq len fl1 f2 k2 show ?case by blast
qed

lemma PCF8574_loop_inv:
  assumes inv: "PCF8574_inv s"
  shows "\<exists>s'. PCF8574_loop s currentMicros = Some s' \<and> PCF8574_inv s'
          \<and> firstID s' = firstID s \<and> nPins s' = nPins s \<and> nModules s' = nModules s"
proof -
  from inv have arr: "PCF8574_arrays s" and nm: "unat (nModules s) \<le> maxModules"
    by (simp_all add: inv_zero_iff)
  from arr have len: "length (portCounter s) = maxModules" by (simp add: PCF8574_arrays_def)
  show ?thesis
  proof (cases "portTickTime < currentMicros - lastLoopEntry s")
    case False
    with inv show ?thesis by (simp add: PCF8574_loop_def)
  next
    case gap: True
    show ?thesis
    proof (cases "counterSet s")
      case False
      have "PCF8574_inv (s\<lparr>lastLoopEntry := currentMicros\<rparr>)"
        using inv by (simp add: PCF8574_inv_def PCF8574_arrays_def)
      with gap False show ?thesis by (simp add: PCF8574_loop_def)
    next
      case True
      let ?et = "sint (ucast ((currentMicros - lastLoopEntry s) div portTickTime) :: 16 word)"
      from nm have "0 + unat (nModules s) \<le> maxModules" by simp
      from tick_counters_flag[OF this, of ?et "portCounter s" False]
      obtain cnt' flag' where
        r: "tick_counters ?et (unat (nModules s)) 0 (portCounter s) False = Some (cnt', flag')"
        and len': "length cnt' = length (portCounter s)"
        and fl: "\<forall>j < length (portCounter s). j < unat (nModules s) \<and> cnt' ! j \<noteq> 0 \<longrightarrow> flag'"
        by auto
      let ?s' = "s\<lparr>portCounter := cnt', counterSet := flag', lastLoopEntry := currentMicros\<rparr>"
      have l: "PCF8574_loop s currentMicros = Some ?s'"
        using gap True r by (simp add: PCF8574_loop_def Let_def)
      have "PCF8574_inv ?s'"
        using arr nm len len' fl by (auto simp: inv_zero_iff PCF8574_arrays_def)
      with l show ?thesis by simp
    qed
  qed
qed

text \<open>The loop of \<open>_loop\<close> in the revision of \<open>part_000\<close>.\<close>

lemma part000_tick_counters_spec:
  assumes "i + k \<le> length cnt"
  shows "length (part000_tick_counters k i cnt) = length cnt
       \<and> (\<forall>j < length cnt. unat (part000_tick_counters k i cnt ! j)
              = (if i \<le> j \<and> j < i + k then unat (cnt ! j) - 1 else unat (cnt ! j)))"
  using assms
proof (induction k arbitrary: i cnt)
  case 0
  then show ?case by simp
next
  case (Suc k)
  let ?c = "(if cnt ! i > 0 then cnt[i := cnt ! i - 1] else cnt)"
  from Suc.prems have i: "i < length cnt" by simp
  have len: "length ?c = length cnt" by simp
  from Suc.prems len have "Suc i + k \<le> length ?c" by simp
  note ih = Suc.IH[OF this]
  have ci: "unat (?c ! i) = unat (cnt ! i) - 1"
  proof (cases "cnt ! i > 0")
    case True
    then have "cnt ! i \<noteq> 0" by (simp add: word_greater_zero_iff)
    then have "unat (cnt ! i - 1) = unat (cnt ! i) - 1" by (rule unat_minus_one)
    with True i show ?thesis by simp
  next
    case False
    then have "cnt ! i = 0" by (simp add: word_greater_zero_iff)
    with False show ?thesis by simp
  qed
  have cj: "?c ! j = cnt ! j" if "j \<noteq> i" for j using that by simp
  have "\<forall>j < length cnt. unat (part000_tick_counters (Suc k) i cnt ! j)
              = (if i \<le> j \<and> j < i + Suc k then unat (cnt ! j) - 1 else unat (cnt ! j))"
  proof (intro allI impI)
    fix j assume j: "j < length cnt"
    from ih j len have v: "unat (part000_tick_counters k (Suc i) ?c ! j)
        = (if Suc i \<le> j \<and> j < Suc i + k then unat (?c ! j) - 1 else unat (?c ! j))"
      by simp
    show "unat (part000_tick_counters (Suc k) i cnt ! j)
              = (if i \<le> j \<and> j < i + Suc k then unat (cnt ! j) - 1 else unat (cnt ! j))"
    proof (cases "j = i")
      case True
      with v ci show ?thesis by simp
    next
      case False
      with v cj[OF False] show ?thesis by auto
    qed
  qed
  moreover from ih len have "length (part000_tick_counters (Suc k) i cnt) = length cnt" by simp
  ultimately show ?case by blast
qed

subsection \<open>Tick decay of the freshness counters\<close>

text \<open>
  Claim C6, as the code has it. In both revisions a call of \<open>_loop\<close> changes nothing while
  no more than 500 microseconds have gone by since the last call that was processed; exactly
  one full interval is not enough. In \<open>IO_PCF8574.cpp\<close> a call that is processed lowers the
  counter of every module in use by the number of whole intervals of 500 microseconds that
  have gone by, stopping at 0, provided that this number is below 32768 and so fits the
  16-bit \<open>int\<close> that the code stores it in. In \<open>part_000\<close> a call that is processed lowers
  the counter of every module in use by one, stopping at 0, however many intervals have gone
  by. A counter at 0 stays at 0 in both. The elapsed time is the unsigned 32-bit difference
  of the two clock values. \<open>s\<close> is an object of \<open>IO_PCF8574.cpp\<close> on which \<open>_begin\<close> has
  run, \<open>p\<close> an object of \<open>part_000\<close> with its arrays of \<open>_nModules\<close> entries.
\<close>

theorem PCF8574_loop_tick_decay:
  assumes inv: "PCF8574_inv s"
    and arr: "unat (nModules p) \<le> length (portCounter p)"
  shows "(unat (currentMicros - lastLoopEntry s) \<le> 500 \<longrightarrow> PCF8574_loop s currentMicros = Some s)
       \<and> (500 < unat (currentMicros - lastLoopEntry s)
            \<and> unat (currentMicros - lastLoopEntry s) div 500 < 32768 \<longrightarrow>
           (\<exists>s'. PCF8574_loop s currentMicros = Some s' \<and> PCF8574_inv s'
              \<and> lastLoopEntry s' = currentMicros
              \<and> (\<forall>j < unat (nModules s). unat (portCounter s' ! j)
                    = unat (portCounter s ! j) - unat (currentMicros - lastLoopEntry s) div 500)))
       \<and> (unat (currentMicros - lastLoopEntry p) \<le> 500 \<longrightarrow> part000_loop p currentMicros = p)
       \<and> (500 < unat (currentMicros - lastLoopEntry p) \<longrightarrow>
            lastLoopEntry (part000_loop p currentMicros) = currentMicros
            \<and> (\<forall>j < unat (nModules p). unat (portCounter (part000_loop p currentMicros) ! j)
                   = unat (portCounter p ! j) - 1))"
proof (intro conjI impI)
  assume "unat (currentMicros - lastLoopEntry s) \<le> 500"
  then have "\<not> portTickTime < currentMicros - lastLoopEntry s" by (simp add: gap_nat)
  then show "PCF8574_loop s currentMicros = Some s" by (simp add: PCF8574_loop_def)
next
  assume a: "500 < unat (currentMicros - lastLoopEntry s)
            \<and> unat (currentMicros - lastLoopEntry s) div 500 < 32768"
  then have gap: "portTickTime < currentMicros - lastLoopEntry s" by (simp add: gap_nat)
  from a have rng: "unat ((currentMicros - lastLoopEntry s) div portTickTime) < 32768"
    by (simp add: ticks_nat)
  from inv have n: "unat (nModules s) \<le> length (portCounter s)"
    by (simp add: PCF8574_inv_def PCF8574_arrays_def)
  from PCF8574_loop_step[OF inv gap rng] n
  show "\<exists>s'. PCF8574_loop s currentMicros = Some s' \<and> PCF8574_inv s'
              \<and> lastLoopEntry s' = currentMicros
              \<and> (\<forall>j < unat (nModules s). unat (portCounter s' ! j)
                    = unat (portCounter s ! j) - unat (currentMicros - lastLoopEntry s) div 500)"
    by (auto simp: ticks_nat)
next
  assume "unat (currentMicros - lastLoopEntry p) \<le> 500"
  then have "\<not> portTickTime < currentMicros - lastLoopEntry p" by (simp add: gap_nat)
  then show "part000_loop p currentMicros = p" by (simp add: part000_loop_def)
next
  assume "500 < unat (currentMicros - lastLoopEntry p)"
  then have gap: "portTickTime < currentMicros - lastLoopEntry p" by (simp add: gap_nat)
  then show "lastLoopEntry (part000_loop p currentMicros) = currentMicros"
    by (simp add: part000_loop_def)
  from arr have "0 + unat (nModules p) \<le> length (portCounter p)" by simp
  from part000_tick_counters_spec[OF this] arr gap
  show "\<forall>j < unat (nModules p). unat (portCounter (part000_loop p currentMicros) ! j)
                   = unat (portCounter p ! j) - 1"
    by (simp add: part000_loop_def)
qed

lemma pcf_example_inv: "PCF8574_inv pcf_example"
  by (simp add: PCF8574_inv_def PCF8574_arrays_def pcf_example_def maxModules_def)

theorem PCF8574_loop_tick_decay_witness:
  "PCF8574_inv pcf_example
   \<and> unat (nModules part000_example) \<le> length (portCounter part000_example)
   \<and> 500 < unat (700 - lastLoopEntry pcf_example)
   \<and> unat (700 - lastLoopEntry pcf_example) div 500 < 32768
   \<and> (\<exists>s'. PCF8574_loop pcf_example 700 = Some s' \<and> unat (portCounter s' ! 0) = 1)
   \<and> 500 < unat (700 - lastLoopEntry part000_example)
   \<and> unat (portCounter (part000_loop part000_example 700) ! 0) = 1"
proof -
  have e: "unat (700 - lastLoopEntry pcf_example) = 700" "unat (nModules pcf_example) = 4"
    "portCounter pcf_example ! 0 = 2"
    by (simp_all add: pcf_example_def)
  have e': "unat (700 - lastLoopEntry part000_example) = 700" "unat (nModules part000_example) = 4"
    "portCounter part000_example ! 0 = 2" "length (portCounter part000_example) = 4"
    by (simp_all add: part000_example_def)
  have a: "unat (nModules part000_example) \<le> length (portCounter part000_example)"
    unfolding e' by simp
  note inst = PCF8574_loop_tick_decay[OF pcf_example_inv a, of 700, unfolded e(1,2) e'(1,2)]
  from inst have "\<exists>s'. PCF8574_loop pcf_example 700 = Some s' \<and> unat (portCounter s' ! 0) = 1"
    using e(3) by auto
  moreover from inst have "unat (portCounter (part000_loop part000_example 700) ! 0) = 1"
    using e'(3) by auto
  ultimately show ?thesis
    using pcf_example_inv a unfolding e(1) e'(1) by simp
qed

text \<open>
  The claim says that a counter at 2 is at 1 after one full interval, that a processed call
  lowers the counters by the number of whole intervals that have gone by, and that a
  counter at 0 stays there. In \<open>IO_PCF8574.cpp\<close>, when exactly one interval
  (500 microseconds) has gone by, the guard of \<open>_loop\<close>, a strict comparison, does not hold
  yet, and the counter is still 2; and after 32767500 microseconds, 65535 intervals, the
  16-bit \<open>elapsedTicks\<close> is -1, every counter is above it and has 1 added: the counter at 2
  goes to 3 and the counters at 0 go to 1. In \<open>part_000\<close>, a call after 1200 microseconds,
  two whole intervals, takes the counter from 2 to 1, not to 0.
\<close>

theorem PCF8574_loop_one_interval_counterexample:
  "PCF8574_inv pcf_example \<and> unat (500 - lastLoopEntry pcf_example) = 500
   \<and> portCounter pcf_example = [2, 0, 0, 0, 0, 0, 0, 0]
   \<and> PCF8574_loop pcf_example 500 = Some pcf_example
   \<and> unat (32767500 - lastLoopEntry pcf_example) div 500 = 65535
   \<and> PCF8574_loop pcf_example 32767500
       = Some (pcf_example\<lparr>portCounter := [3, 1, 1, 1, 0, 0, 0, 0], lastLoopEntry := 32767500\<rparr>)
   \<and> unat (1200 - lastLoopEntry part000_example) div 500 = 2
   \<and> portCounter part000_example = [2, 0, 0, 0]
   \<and> part000_loop part000_example 1200
       = part000_example\<lparr>portCounter := [1, 0, 0, 0], lastLoopEntry := 1200\<rparr>"
proof -
  have a: "PCF8574_loop pcf_example 500 = Some pcf_example"
    by (simp add: PCF8574_loop_def pcf_example_def portTickTime_def)
  have b: "PCF8574_loop pcf_example 32767500
       = Some (pcf_example\<lparr>portCounter := [3, 1, 1, 1, 0, 0, 0, 0], lastLoopEntry := 32767500\<rparr>)"
    by code_simp
  have c: "part000_loop part000_example 1200
       = part000_example\<lparr>portCounter := [1, 0, 0, 0], lastLoopEntry := 1200\<rparr>"
    by code_simp
  have d: "unat (500 - lastLoopEntry pcf_example) = 500"
    "unat (32767500 - lastLoopEntry pcf_example) div 500 = 65535"
    "portCounter pcf_example = [2, 0, 0, 0, 0, 0, 0, 0]"
    by (simp_all add: pcf_example_def)
  have d': "unat (1200 - lastLoopEntry part000_example) div 500 = 2"
    "portCounter part000_example = [2, 0, 0, 0]"
    by (simp_all add: part000_example_def)
  from pcf_example_inv a b c d d' show ?thesis by simp
qed

subsection \<open>Freshness of the cached input\<close>










subsection \<open>A bus read that fails\<close>

text \<open>
  Claim C5 at a failing transfer. \<open>_read\<close> of \<open>IO_PCF8574.cpp\<close> does not look at what the
  bus read returns: with no byte received and 255 left in the buffer, the input shadow of the
  module becomes 255 and the pin reads as 1. The claim asks for an all-zero shadow and the
  value 0.
\<close>

theorem PCF8574_read_failed_transfer:
  "PCF8574_read pcf_example 133 \<lparr>nBytes = 0, inBuffer = 255\<rparr>
     = Some (1, pcf_example\<lparr>portInputState := [255, 0, 0, 0, 0, 0, 0, 0],
                           portOutputState := [3, 0, 0, 0, 0, 0, 0, 0],
                           portCounter := [2, 0, 0, 0, 0, 0, 0, 0]\<rparr>,
             [I2C_read 32 [3]])"
  by (simp add: PCF8574_read_def pcf_example_def Let_def cdiv_def cmod_def
      maxModules_def minTicksBetweenPortReads_def)

theorem PCF8574_read_failed_transfer_witness:
  "nBytes \<lparr>nBytes = 0, inBuffer = 255\<rparr> \<noteq> (1::nat)
   \<and> (\<exists>s' ev. PCF8574_read pcf_example 133 \<lparr>nBytes = 0, inBuffer = 255\<rparr> = Some (1, s', ev)
          \<and> portInputState s' ! 0 = 255 \<and> ev = [I2C_read 32 [3]])"
  using PCF8574_read_failed_transfer by simp

text \<open>The revision in \<open>part_000\<close> does what the claim says.\<close>

lemma part000_read_failed_transfer:
  assumes "part000_read s vpin reply = Some (r, s', ev)" and "ev \<noteq> []" and "nBytes reply \<noteq> 1"
    and "nat (cdiv (sint (vpin - firstID s)) 8) < length (portInputState s)"
  shows "portInputState s' ! nat (cdiv (sint (vpin - firstID s)) 8) = 0 \<and> r = 0"
  using assms
  by (auto simp: part000_read_def Let_def split: if_splits)

lemma part000_read_example:
  "part000_read pcf_example 133 \<lparr>nBytes = 0, inBuffer = 255\<rparr>
     = Some (0, pcf_example\<lparr>portInputState := [0, 0, 0, 0, 0, 0, 0, 0],
                           portOutputState := [3, 0, 0, 0, 0, 0, 0, 0],
                           portCounter := [2, 0, 0, 0, 0, 0, 0, 0]\<rparr>,
             [I2C_read 32 [3]])"
  by (simp add: part000_read_def pcf_example_def Let_def cdiv_def cmod_def
      minTicksBetweenPortReads_def)

text \<open>
  \<open>_loop\<close> of that revision takes one off each counter in a call that it processes,
  however many intervals have gone by: after 1200 microseconds a counter at 2 is at 1.
\<close>

lemma part000_loop_example:
  "part000_loop pcf_example 1200 = pcf_example\<lparr>portCounter := [1, 0, 0, 0, 0, 0, 0, 0],
       lastLoopEntry := 1200\<rparr>"
  by code_simp

subsection \<open>The animation engine\<close>

lemma updatePositions_snoc:
  "updatePositions (Suc n) a =
     (case updatePositions n a of
        None \<Rightarrow> None
      | Some (a1, w1) \<Rightarrow>
          (case updatePosition a1 of None \<Rightarrow> None | Some (a2, w2) \<Rightarrow> Some (a2, w1 @ w2)))"
proof (induction n arbitrary: a)
  case 0
  show ?case by (simp split: option.splits)
next
  case (Suc n)
  show ?case
    by (subst updatePositions.simps(2), subst Suc.IH) (simp split: option.splits)
qed

lemma sint16_cases:
  fixes w :: "16 word"
  shows "sint w = (if uint w < 32768 then uint w else uint w - 65536)"
proof -
  have b: "0 \<le> uint w" "uint w < 65536" using uint_bounded[of w] by simp_all
  have "sint w = signed_take_bit (LENGTH(16) - Suc 0) (uint w)" by (rule sint_uint)
  also have "\<dots> = take_bit 16 (uint w) - 65536 * of_bool (bit (uint w) 15)"
    by (simp add: signed_take_bit_eq_take_bit_minus)
  also have "take_bit 16 (uint w) = uint w" using b by (simp add: take_bit_int_eq_self)
  also have "bit (uint w) 15 \<longleftrightarrow> \<not> uint w < 32768"
  proof -
    have "uint w div 32768 = (if uint w < 32768 then 0 else 1)" using b by auto
    then show ?thesis by (simp add: bit_iff_odd)
  qed
  finally show ?thesis by simp
qed

lemma updatePosition_Fast:
  assumes "profile a = Fast"
  shows "updatePosition a =
    (if stepNumber a > numSteps a + catchupSteps a then Some (a, [])
     else if stepNumber a < numSteps a
     then Some (a\<lparr>stepNumber := stepNumber a + 1,
                   currentPosition :=
                     word_of_int (map_long (int (stepNumber a + 1)) 0 (int (numSteps a))
                                    (uint (fromPosition a)) (uint (toPosition a)))\<rparr>,
                [(devicePin a,
                  sint (word_of_int (map_long (int (stepNumber a + 1)) 0 (int (numSteps a))
                                       (uint (fromPosition a)) (uint (toPosition a))) :: 16 word))])
     else if stepNumber a < numSteps a + catchupSteps a
     then Some (a\<lparr>stepNumber := stepNumber a + 1\<rparr>, [])
     else if currentPosition a \<noteq> 4095 \<and> currentPosition a \<noteq> 0
     then Some (a\<lparr>stepNumber := stepNumber a + 1\<rparr>, [(devicePin a, 0)])
     else Some (a, []))"
  using assms by (auto simp: updatePosition_def)

lemma map_long_10: "map_long 10 0 10 f t = t"
  by (simp add: map_long_def cdiv_def sgn_if)

lemma cdiv_10: "cdiv x 10 = (if 0 \<le> x then x div 10 else - ((- x) div 10))"
  by (simp add: cdiv_def sgn_if)

lemma cdiv_minus: "cdiv (- x) b = - cdiv x b"
  by (simp add: cdiv_def sgn_if)

lemma cdiv_10_up:
  "0 \<le> x \<Longrightarrow> 0 \<le> d \<Longrightarrow> cdiv x 10 \<le> cdiv (x + d) 10"
  "0 \<le> x \<Longrightarrow> 10 \<le> d \<Longrightarrow> cdiv x 10 < cdiv (x + d) 10"
proof -
  assume x: "0 \<le> x" and d: "0 \<le> d"
  then have "x div 10 \<le> (x + d) div 10" by (intro zdiv_mono1) simp_all
  with x d show "cdiv x 10 \<le> cdiv (x + d) 10" by (simp add: cdiv_10)
next
  assume x: "0 \<le> x" and d: "10 \<le> d"
  then have "(x + 10) div 10 \<le> (x + d) div 10" by (intro zdiv_mono1) simp_all
  then have "x div 10 < (x + d) div 10" by simp
  with x d show "cdiv x 10 < cdiv (x + d) 10" by (simp add: cdiv_10)
qed

lemma cdiv_10_steps:
  "0 \<le> x \<Longrightarrow> 0 \<le> d \<Longrightarrow> cdiv x 10 \<le> cdiv (x + d) 10"
  "0 \<le> x \<Longrightarrow> 10 \<le> d \<Longrightarrow> cdiv x 10 < cdiv (x + d) 10"
  "x \<le> 0 \<Longrightarrow> d \<le> 0 \<Longrightarrow> cdiv (x + d) 10 \<le> cdiv x 10"
  "x \<le> 0 \<Longrightarrow> d \<le> - 10 \<Longrightarrow> cdiv (x + d) 10 < cdiv x 10"
proof -
  show "0 \<le> x \<Longrightarrow> 0 \<le> d \<Longrightarrow> cdiv x 10 \<le> cdiv (x + d) 10" by (rule cdiv_10_up)
  show "0 \<le> x \<Longrightarrow> 10 \<le> d \<Longrightarrow> cdiv x 10 < cdiv (x + d) 10" by (rule cdiv_10_up)
  show "cdiv (x + d) 10 \<le> cdiv x 10" if "x \<le> 0" "d \<le> 0"
    using cdiv_10_up(1)[of "- x" "- d"] that cdiv_minus[of x 10] cdiv_minus[of "x + d" 10]
    by simp
  show "cdiv (x + d) 10 < cdiv x 10" if "x \<le> 0" "d \<le> - 10"
    using cdiv_10_up(2)[of "- x" "- d"] that cdiv_minus[of x 10] cdiv_minus[of "x + d" 10]
    by simp
qed

lemma map_long_step: "map_long (k + 1) 0 10 f t = cdiv (k * (t - f) + (t - f)) 10 + f"
  by (simp add: map_long_def algebra_simps)

lemma map_long_mono_up:
  assumes "f \<le> t" "0 \<le> k"
  shows "map_long k 0 10 f t \<le> map_long (k + 1) 0 10 f t"
proof -
  from assms have "0 \<le> k * (t - f)" by simp
  from cdiv_10_steps(1)[OF this, of "t - f"] assms show ?thesis
    unfolding map_long_step by (simp add: map_long_def)
qed

lemma map_long_mono_down:
  assumes "t \<le> f" "0 \<le> k"
  shows "map_long (k + 1) 0 10 f t \<le> map_long k 0 10 f t"
proof -
  from assms have "k * (t - f) \<le> 0" by (simp add: mult_nonneg_nonpos)
  from cdiv_10_steps(3)[OF this, of "t - f"] assms show ?thesis
    unfolding map_long_step by (simp add: map_long_def)
qed

lemma map_long_strict_up:
  assumes "f + 10 \<le> t" "0 \<le> k"
  shows "map_long k 0 10 f t < map_long (k + 1) 0 10 f t"
proof -
  from assms have "0 \<le> k * (t - f)" by simp
  from cdiv_10_steps(2)[OF this, of "t - f"] assms show ?thesis
    unfolding map_long_step by (simp add: map_long_def)
qed

lemma map_long_strict_down:
  assumes "t + 10 \<le> f" "0 \<le> k"
  shows "map_long (k + 1) 0 10 f t < map_long k 0 10 f t"
proof -
  from assms have "k * (t - f) \<le> 0" by (simp add: mult_nonneg_nonpos)
  from cdiv_10_steps(4)[OF this, of "t - f"] assms show ?thesis
    unfolding map_long_step by (simp add: map_long_def)
qed

text \<open>
  The positions of a move lie between its two ends, so storing them in 16 bits loses
  nothing, and they are on the same side of 32768 when the two ends are.
\<close>

lemma map_long_between:
  assumes k: "0 \<le> k" "k \<le> 10"
  shows "min f t \<le> map_long k 0 10 f t \<and> map_long k 0 10 f t \<le> max f t"
proof (cases "f \<le> t")
  case True
  then have d: "0 \<le> t - f" by simp
  with k have x: "0 \<le> k * (t - f)" by simp
  from k d have "k * (t - f) \<le> 10 * (t - f)" by (intro mult_right_mono) simp_all
  then have "k * (t - f) div 10 \<le> (10 * (t - f)) div 10" by (rule zdiv_mono1) simp
  then have u: "k * (t - f) div 10 \<le> t - f" by simp
  from x have l: "0 \<le> k * (t - f) div 10" by (simp add: pos_imp_zdiv_nonneg_iff)
  from x l u True show ?thesis by (simp add: map_long_def cdiv_10)
next
  case False
  then have d: "0 \<le> f - t" by simp
  with k have x: "0 \<le> k * (f - t)" by simp
  from k d have "k * (f - t) \<le> 10 * (f - t)" by (intro mult_right_mono) simp_all
  then have "k * (f - t) div 10 \<le> (10 * (f - t)) div 10" by (rule zdiv_mono1) simp
  then have u: "k * (f - t) div 10 \<le> f - t" by simp
  from x have l: "0 \<le> k * (f - t) div 10" by (simp add: pos_imp_zdiv_nonneg_iff)
  have e: "- (k * (t - f)) = k * (f - t)" by (simp add: algebra_simps)
  have "cdiv (k * (t - f)) 10 = - (k * (f - t) div 10)"
  proof (cases "0 \<le> k * (t - f)")
    case True
    with x e have z: "k * (t - f) = 0" "k * (f - t) = 0" by linarith+
    show ?thesis unfolding z by (simp add: cdiv_10)
  next
    case False
    then show ?thesis by (simp add: cdiv_10 e)
  qed
  with l u False show ?thesis by (simp add: map_long_def)
qed

lemma step_position_uint:
  assumes "k \<le> 10"
  shows "uint (step_position f t k) = map_long (int k) 0 10 (uint f) (uint t)"
proof -
  have b: "0 \<le> uint f" "uint f < 65536" "0 \<le> uint t" "uint t < 65536"
    using uint_bounded[of f] uint_bounded[of t] by simp_all
  from assms have "0 \<le> int k" "int k \<le> 10" by simp_all
  from map_long_between[OF this, of "uint f" "uint t"] b
  have r: "0 \<le> map_long (int k) 0 10 (uint f) (uint t)"
    "map_long (int k) 0 10 (uint f) (uint t) < 65536" by linarith+
  then have "map_long (int k) 0 10 (uint f) (uint t) mod 2 ^ LENGTH(16)
      = map_long (int k) 0 10 (uint f) (uint t)" by simp
  then show ?thesis unfolding step_position_def by (simp only: uint_word_of_int)
qed

lemma step_position_ends:
  "step_position f t 0 = f" "step_position f t 10 = t"
  by (simp_all add: step_position_def map_long_10) (simp add: map_long_def cdiv_def)

lemma step_position_sint:
  assumes k: "k \<le> 10" and side: "(uint f < 32768) = (uint t < 32768)"
  shows "sint (step_position f t k)
           = map_long (int k) 0 10 (uint f) (uint t) - (if uint f < 32768 then 0 else 65536)"
proof -
  from k have "0 \<le> int k" "int k \<le> 10" by simp_all
  note b = map_long_between[OF this, of "uint f" "uint t"]
  show ?thesis
  proof (cases "uint f < 32768")
    case True
    with side b have "map_long (int k) 0 10 (uint f) (uint t) < 32768" by linarith
    with True show ?thesis by (simp add: sint16_cases step_position_uint[OF k])
  next
    case False
    with side b have "\<not> map_long (int k) 0 10 (uint f) (uint t) < 32768" by linarith
    with False show ?thesis by (simp add: sint16_cases step_position_uint[OF k])
  qed
qed

lemma Analogue_write_Fast:
  assumes "state a = 0" "profile a = Fast" "value \<noteq> 0"
  shows "Analogue_write a vpin value ms =
     Some (a\<lparr>numSteps := 10, state := 1, stepNumber := 1,
              fromPosition := currentPosition a, toPosition := activePosition a,
              currentPosition := step_position (currentPosition a) (activePosition a) 1,
              lastRefreshTime := ucast ms\<rparr>,
           [(devicePin a, sint (step_position (currentPosition a) (activePosition a) 1))])"
  using assms by (simp add: Analogue_write_def Let_def updatePosition_Fast step_position_def)

lemma Analogue_Fast_ticks:
  assumes a1: "profile a1 = Fast" "numSteps a1 = 10" "stepNumber a1 = 1"
    "currentPosition a1 = step_position (fromPosition a1) (toPosition a1) 1"
  shows "updatePositions n a1 =
     Some (a1\<lparr>stepNumber := min (Suc n) (10 + catchupSteps a1
                     + (if toPosition a1 \<noteq> 4095 \<and> toPosition a1 \<noteq> 0 then 1 else 0)),
               currentPosition := step_position (fromPosition a1) (toPosition a1) (min (Suc n) 10)\<rparr>,
           map (\<lambda>k. (devicePin a1, sint (step_position (fromPosition a1) (toPosition a1) k)))
               [2..<Suc (min (Suc n) 10)]
           @ (if 10 + catchupSteps a1 \<le> n \<and> toPosition a1 \<noteq> 4095 \<and> toPosition a1 \<noteq> 0
              then [(devicePin a1, 0)] else []))"
proof (induction n)
  case 0
  have "a1\<lparr>stepNumber := Suc 0,
           currentPosition := step_position (fromPosition a1) (toPosition a1) (Suc 0)\<rparr> = a1"
    using a1 by simp
  then show ?case by simp
next
  case (Suc n)
  let ?K = "catchupSteps a1"
  let ?off = "(if toPosition a1 \<noteq> 4095 \<and> toPosition a1 \<noteq> 0 then 1 else 0 :: nat)"
  consider (anim) "n < 9" | (catch) "9 \<le> n" "n < 9 + ?K" | (off) "n = 9 + ?K" | (idle) "9 + ?K < n"
    by linarith
  then show ?case
  proof cases
    case anim
    then show ?thesis
      unfolding updatePositions_snoc Suc.IH
      using a1 by (simp add: updatePosition_Fast min_def step_position_def)
  next
    case catch
    then show ?thesis
      unfolding updatePositions_snoc Suc.IH
      using a1 by (simp add: updatePosition_Fast min_def step_position_ends)
  next
    case off
    then show ?thesis
      unfolding updatePositions_snoc Suc.IH
      using a1 by (simp add: updatePosition_Fast min_def step_position_ends)
  next
    case idle
    then show ?thesis
      unfolding updatePositions_snoc Suc.IH
      using a1 by (simp add: updatePosition_Fast min_def step_position_ends)
  qed
qed

text \<open>
  Claim C8, as the code has it. A device with the Fast profile whose logical state is 0 is
  written a nonzero value. The write itself sends the first position downstream and each
  of the next nine calls of \<open>updatePosition\<close> sends one, ten in all. The \<open>k\<close>-th position
  is \<open>map(k, 0, 10, from, to)\<close>, where \<open>from\<close> is the position the device was at and
  \<open>to\<close> its active position, and what is sent is that position read as a 16-bit \<open>int\<close>;
  the last position is \<open>to\<close>. The next \<open>_catchupSteps\<close> calls send nothing; the call after
  them sends 0 once if \<open>to\<close> is neither 0 nor 4095; no later call sends anything. When
  \<open>from\<close> and \<open>to\<close> are both below 32768, or both not, the values sent never move away
  from \<open>to\<close>, beginning at \<open>from\<close>, and each differs from the one before when \<open>from\<close>
  and \<open>to\<close> are at least ten apart.
\<close>

theorem Analogue_Fast_animation:
  assumes "state a = 0" "profile a = Fast" "value \<noteq> 0"
  shows "(\<exists>a1. Analogue_write a vpin value ms
            = Some (a1, [(devicePin a,
                          sint (step_position (currentPosition a) (activePosition a) 1))])
          \<and> (\<forall>n. \<exists>an. updatePositions n a1
                = Some (an,
                    map (\<lambda>k. (devicePin a,
                               sint (step_position (currentPosition a) (activePosition a) k)))
                        [2..<Suc (min (Suc n) 10)]
                    @ (if 10 + catchupSteps a \<le> n \<and> activePosition a \<noteq> 4095 \<and> activePosition a \<noteq> 0
                       then [(devicePin a, 0)] else []))))
       \<and> step_position (currentPosition a) (activePosition a) 0 = currentPosition a
       \<and> step_position (currentPosition a) (activePosition a) 10 = activePosition a
       \<and> (\<forall>k\<le>10. uint (step_position (currentPosition a) (activePosition a) k)
                    = map_long (int k) 0 10 (uint (currentPosition a)) (uint (activePosition a)))
       \<and> ((uint (currentPosition a) < 32768) = (uint (activePosition a) < 32768) \<longrightarrow>
            (\<forall>k<10. (currentPosition a \<le> activePosition a \<longrightarrow>
                        sint (step_position (currentPosition a) (activePosition a) k)
                        \<le> sint (step_position (currentPosition a) (activePosition a) (k + 1)))
                   \<and> (activePosition a \<le> currentPosition a \<longrightarrow>
                        sint (step_position (currentPosition a) (activePosition a) (k + 1))
                        \<le> sint (step_position (currentPosition a) (activePosition a) k))
                   \<and> (uint (currentPosition a) + 10 \<le> uint (activePosition a) \<longrightarrow>
                        sint (step_position (currentPosition a) (activePosition a) k)
                        < sint (step_position (currentPosition a) (activePosition a) (k + 1)))
                   \<and> (uint (activePosition a) + 10 \<le> uint (currentPosition a) \<longrightarrow>
                        sint (step_position (currentPosition a) (activePosition a) (k + 1))
                        < sint (step_position (currentPosition a) (activePosition a) k))))"
proof -
  let ?f = "currentPosition a" and ?t = "activePosition a"
  let ?a1 = "a\<lparr>numSteps := 10, state := 1, stepNumber := 1,
              fromPosition := ?f, toPosition := ?t,
              currentPosition := step_position ?f ?t 1,
              lastRefreshTime := ucast ms\<rparr>"
  have w: "Analogue_write a vpin value ms
            = Some (?a1, [(devicePin a, sint (step_position ?f ?t 1))])"
    by (rule Analogue_write_Fast[OF assms])
  have t: "\<exists>an. updatePositions n ?a1
                = Some (an,
                    map (\<lambda>k. (devicePin a, sint (step_position ?f ?t k)))
                        [2..<Suc (min (Suc n) 10)]
                    @ (if 10 + catchupSteps a \<le> n \<and> ?t \<noteq> 4095 \<and> ?t \<noteq> 0
                       then [(devicePin a, 0)] else []))" for n
    using Analogue_Fast_ticks[of ?a1 n] assms(2) by simp
  from w t have p1: "\<exists>a1. Analogue_write a vpin value ms
            = Some (a1, [(devicePin a, sint (step_position ?f ?t 1))])
          \<and> (\<forall>n. \<exists>an. updatePositions n a1
                = Some (an,
                    map (\<lambda>k. (devicePin a, sint (step_position ?f ?t k)))
                        [2..<Suc (min (Suc n) 10)]
                    @ (if 10 + catchupSteps a \<le> n \<and> ?t \<noteq> 4095 \<and> ?t \<noteq> 0
                       then [(devicePin a, 0)] else [])))"
    by blast
  have p2: "\<forall>k\<le>10. uint (step_position ?f ?t k) = map_long (int k) 0 10 (uint ?f) (uint ?t)"
    using step_position_uint by blast
  have p3: "\<forall>k<10. (?f \<le> ?t \<longrightarrow> sint (step_position ?f ?t k) \<le> sint (step_position ?f ?t (k + 1)))
                   \<and> (?t \<le> ?f \<longrightarrow> sint (step_position ?f ?t (k + 1)) \<le> sint (step_position ?f ?t k))
                   \<and> (uint ?f + 10 \<le> uint ?t \<longrightarrow>
                        sint (step_position ?f ?t k) < sint (step_position ?f ?t (k + 1)))
                   \<and> (uint ?t + 10 \<le> uint ?f \<longrightarrow>
                        sint (step_position ?f ?t (k + 1)) < sint (step_position ?f ?t k))"
    if side: "(uint ?f < 32768) = (uint ?t < 32768)"
  proof (intro allI impI)
    fix k :: nat assume k: "k < 10"
    then have k1: "k \<le> 10" "k + 1 \<le> 10" by simp_all
    have e: "int (k + 1) = int k + 1" by simp
    note s0 = step_position_sint[OF k1(1) side] and s1 = step_position_sint[OF k1(2) side]
    have k0: "0 \<le> int k" by simp
    show "(?f \<le> ?t \<longrightarrow> sint (step_position ?f ?t k) \<le> sint (step_position ?f ?t (k + 1)))
                   \<and> (?t \<le> ?f \<longrightarrow> sint (step_position ?f ?t (k + 1)) \<le> sint (step_position ?f ?t k))
                   \<and> (uint ?f + 10 \<le> uint ?t \<longrightarrow>
                        sint (step_position ?f ?t k) < sint (step_position ?f ?t (k + 1)))
                   \<and> (uint ?t + 10 \<le> uint ?f \<longrightarrow>
                        sint (step_position ?f ?t (k + 1)) < sint (step_position ?f ?t k))"
      unfolding s0 s1 e word_le_def
      using map_long_mono_up[OF _ k0, of "uint ?f" "uint ?t"]
        map_long_mono_down[OF _ k0, of "uint ?t" "uint ?f"]
        map_long_strict_up[OF _ k0, of "uint ?f" "uint ?t"]
        map_long_strict_down[OF _ k0, of "uint ?t" "uint ?f"]
      by simp
  qed
  from p1 p2 p3 step_position_ends[of ?f ?t] show ?thesis by blast
qed

lemma servo_short_write:
  "Analogue_write servo_short 100 1 0 = Some (servo_short_started, [(100, 200)])"
  by code_simp

lemma servo_short_ticks:
  "updatePositions 9 servo_short_started
     = Some (servo_short_started\<lparr>stepNumber := 10, currentPosition := 205\<rparr>,
             [(100, 201), (100, 201), (100, 202), (100, 202), (100, 203), (100, 203),
              (100, 204), (100, 204), (100, 205)])"
  by code_simp

lemma servo_far_write:
  "Analogue_write servo_far 100 1 0 = Some (servo_far_started, [(100, 32762)])"
  by code_simp

lemma servo_far_ticks:
  "updatePositions 9 servo_far_started
     = Some (servo_far_started\<lparr>stepNumber := 10, currentPosition := 32780\<rparr>,
             [(100, 32764), (100, 32766), (100, - 32768), (100, - 32766), (100, - 32764),
              (100, - 32762), (100, - 32760), (100, - 32758), (100, - 32756)])"
  by code_simp

theorem Analogue_Fast_animation_witness:
  "state servo_short = 0 \<and> profile servo_short = Fast \<and> (1::int) \<noteq> 0
   \<and> (\<exists>a1. Analogue_write servo_short 100 1 0 = Some (a1, [(100, 200)])
         \<and> (\<exists>an. updatePositions 20 a1
                = Some (an, [(100, 201), (100, 201), (100, 202), (100, 202), (100, 203),
                             (100, 203), (100, 204), (100, 204), (100, 205), (100, 0)])))
   \<and> (uint (currentPosition servo_short) < 32768) = (uint (activePosition servo_short) < 32768)
   \<and> currentPosition servo_short \<le> activePosition servo_short
   \<and> sint (step_position 200 205 3) \<le> sint (step_position 200 205 (3 + 1))"
proof -
  have h: "state servo_short = 0" "profile servo_short = Fast" "(1::int) \<noteq> 0"
    by (simp_all add: servo_short_def)
  have v: "devicePin servo_short = 100" "currentPosition servo_short = 200"
    "activePosition servo_short = 205" "catchupSteps servo_short = 5"
    by (simp_all add: servo_short_def)
  have m: "sint (step_position 200 205 1) = 200"
    "map (\<lambda>k. (100 :: VPIN, sint (step_position 200 205 k))) [2..<Suc (min (Suc 20) 10)]
      = [(100, 201), (100, 201), (100, 202), (100, 202), (100, 203),
                             (100, 203), (100, 204), (100, 204), (100, 205)]"
    by code_simp+
  have side: "(uint (200 :: 16 word) < 32768) = (uint (205 :: 16 word) < 32768)"
    "(200 :: 16 word) \<le> 205" "(3 :: nat) < 10"
    by simp_all
  note inst = Analogue_Fast_animation[OF h, of 100 0, unfolded v]
  from inst
  have "\<exists>a1. Analogue_write servo_short 100 1 0 = Some (a1, [(100, 200)])
          \<and> (\<forall>n. \<exists>an. updatePositions n a1
                = Some (an,
                    map (\<lambda>k. (100, sint (step_position 200 205 k))) [2..<Suc (min (Suc n) 10)]
                    @ (if 10 + 5 \<le> n \<and> (205 :: 16 word) \<noteq> 4095 \<and> (205 :: 16 word) \<noteq> 0
                       then [(100, 0)] else [])))"
    unfolding m(1) by (rule conjunct1)
  then obtain a1 where w: "Analogue_write servo_short 100 1 0 = Some (a1, [(100, 200)])"
    and t: "\<forall>n. \<exists>an. updatePositions n a1
                = Some (an,
                    map (\<lambda>k. (100, sint (step_position 200 205 k))) [2..<Suc (min (Suc n) 10)]
                    @ (if 10 + 5 \<le> n \<and> (205 :: 16 word) \<noteq> 4095 \<and> (205 :: 16 word) \<noteq> 0
                       then [(100, 0)] else []))"
    by blast
  from t have "\<exists>an. updatePositions 20 a1
                = Some (an,
                    map (\<lambda>k. (100, sint (step_position 200 205 k))) [2..<Suc (min (Suc 20) 10)]
                    @ (if 10 + 5 \<le> (20::nat) \<and> (205 :: 16 word) \<noteq> 4095 \<and> (205 :: 16 word) \<noteq> 0
                       then [(100, 0)] else []))"
    by (rule spec)
  then have r: "\<exists>an. updatePositions 20 a1
                = Some (an, [(100, 201), (100, 201), (100, 202), (100, 202), (100, 203),
                             (100, 203), (100, 204), (100, 204), (100, 205), (100, 0)])"
    unfolding m(2) by simp
  from inst side have mono: "sint (step_position 200 205 3) \<le> sint (step_position 200 205 (3 + 1))"
    by blast
  from w r h side(1,2) mono show ?thesis unfolding v by blast
qed

text \<open>
  The claim says that the ten positions are strictly monotonic from the start position to
  the end position. With the two positions five apart, the first position sent is the
  start position itself and every second position repeats the one before. With the start
  position at 32760 and the end position at 32780, the positions from 32768 on arrive as
  negative values: what is sent rises to 32766 and then falls to -32768.
\<close>

theorem Analogue_Fast_not_strictly_monotonic_counterexample:
  "state servo_short = 0 \<and> profile servo_short = Fast
   \<and> currentPosition servo_short = inactivePosition servo_short
   \<and> Analogue_write servo_short 100 1 0 = Some (servo_short_started, [(100, 200)])
   \<and> updatePositions 9 servo_short_started
     = Some (servo_short_started\<lparr>stepNumber := 10, currentPosition := 205\<rparr>,
             [(100, 201), (100, 201), (100, 202), (100, 202), (100, 203), (100, 203),
              (100, 204), (100, 204), (100, 205)])
   \<and> fromPosition servo_short_started = 200
   \<and> state servo_far = 0 \<and> profile servo_far = Fast
   \<and> currentPosition servo_far = inactivePosition servo_far
   \<and> Analogue_write servo_far 100 1 0 = Some (servo_far_started, [(100, 32762)])
   \<and> updatePositions 9 servo_far_started
     = Some (servo_far_started\<lparr>stepNumber := 10, currentPosition := 32780\<rparr>,
             [(100, 32764), (100, 32766), (100, - 32768), (100, - 32766), (100, - 32764),
              (100, - 32762), (100, - 32760), (100, - 32758), (100, - 32756)])
   \<and> fromPosition servo_far_started = 32760 \<and> toPosition servo_far_started = 32780"
  using servo_short_write servo_short_ticks servo_far_write servo_far_ticks
  by (simp add: servo_short_def servo_short_started_def servo_far_def servo_far_started_def)

subsection \<open>The first write to a device in unknown state\<close>

lemma Analogue_first_write_position:
  assumes "state a = - 1" "stepNumber a = 0" "numSteps a = 0"
  shows "\<exists>a' ws. Analogue_write a vpin value ms = Some (a', ws)
           \<and> currentPosition a' = activePosition a
           \<and> state a' = (if value \<noteq> 0 then 1 else 0)"
  using assms
  by (cases "profile a") (auto simp: Analogue_write_def updatePosition_def Let_def)

lemma servo_unknown_created:
  "Analogue_configure
     (Analogue_new (servo_unknown\<lparr>firstID := 0, nPins := 0, devicePin := 0, activePosition := 0,
                      inactivePosition := 0, currentPosition := 0, profile := Unlisted,
                      stepNumber := 3, numSteps := 4, state := 0\<rparr>) 100)
     100 4 [100, 400, 200, 1]
   = Some (True, servo_unknown, [(100, 400)])"
  by (simp add: Analogue_configure_def Analogue_configure5_def Analogue_new_def servo_unknown_def
      profile_of_byte_def Let_def)

text \<open>
  Claim C7 at a failing input. A device created with \<open>createInstance\<close> and configured with
  the active position 400 and the inactive position 200 is written 0. The code chooses the
  position by \<open>_state\<close> before it stores the new value there, and \<open>_state\<close> is still -1,
  which counts as true: the device goes to 400, its active position. The claim asks for
  200, the inactive position.
\<close>

theorem Analogue_first_write_inactive:
  "state servo_unknown = - 1 \<and> inactivePosition servo_unknown = 200
   \<and> activePosition servo_unknown = 400
   \<and> Analogue_write servo_unknown 100 0 0
      = Some (servo_unknown\<lparr>currentPosition := 400, toPosition := 400, fromPosition := 400,
                             state := 0, stepNumber := 1\<rparr>, [])"
  by (simp add: Analogue_write_def updatePosition_def servo_unknown_def Let_def)

theorem Analogue_first_write_inactive_witness:
  "\<exists>a'. Analogue_write servo_unknown 100 0 0 = Some (a', []) \<and> state a' = 0
        \<and> currentPosition a' = 400 \<and> currentPosition a' \<noteq> inactivePosition servo_unknown"
  using Analogue_first_write_inactive by simp

subsection \<open>The module count of a new expander device\<close>

lemma unat_word_of_int_u8:
  assumes "0 \<le> k" "k < 256"
  shows "unat (word_of_int k :: uint8_t) = nat k"
proof -
  have "k mod 2 ^ LENGTH(8) = k" using assms by simp
  then have "uint (word_of_int k :: uint8_t) = k" by (simp only: uint_word_of_int)
  then have "nat (uint (word_of_int k :: uint8_t)) = nat k" by simp
  then show ?thesis by simp
qed

lemma cdiv_pos: "0 \<le> a \<Longrightarrow> 0 < b \<Longrightarrow> cdiv a b = a div b"
  by (cases "a = 0") (simp_all add: cdiv_def)

lemma PCF8574_new_clamps:
  assumes "0 \<le> n"
  shows "nPins (PCF8574_new raw vpin n addr) = min n 64
       \<and> unat (nModules (PCF8574_new raw vpin n addr)) = nat ((min n 64 + 7) div 8)
       \<and> unat (nModules (PCF8574_new raw vpin n addr)) \<le> maxModules"
proof -
  let ?m = "min n 64"
  from assms have m: "0 \<le> ?m" "?m \<le> 64" by simp_all
  then have c: "cdiv (?m + 7) 8 = (?m + 7) div 8" by (simp add: cdiv_pos)
  from m have b: "0 \<le> (?m + 7) div 8" "(?m + 7) div 8 \<le> 8" by simp_all
  then have "unat (word_of_int ((?m + 7) div 8) :: uint8_t) = nat ((?m + 7) div 8)"
    by (intro unat_word_of_int_u8) simp_all
  moreover from b have "nat ((?m + 7) div 8) \<le> 8" by linarith
  ultimately show ?thesis using c by (simp add: PCF8574_new_def maxModules_def)
qed

lemma MCP23017_new_in_range:
  assumes "0 \<le> n" "n \<le> 128"
  shows "nPins (MCP23017_new raw vpin n addr) = n
       \<and> unat (mcp_nModules (MCP23017_new raw vpin n addr)) = nat ((n + 15) div 16)
       \<and> unat (mcp_nModules (MCP23017_new raw vpin n addr)) \<le> maxModules"
proof -
  from assms have c: "cdiv (n + 15) 16 = (n + 15) div 16" by (simp add: cdiv_pos)
  from assms have b: "0 \<le> (n + 15) div 16" "(n + 15) div 16 \<le> 8" by simp_all
  then have "unat (word_of_int ((n + 15) div 16) :: uint8_t) = nat ((n + 15) div 16)"
    by (intro unat_word_of_int_u8) simp_all
  moreover from b have "nat ((n + 15) div 16) \<le> 8" by linarith
  ultimately show ?thesis using c assms by (simp add: MCP23017_new_def maxModules_def)
qed

lemma MCP23017_begin_modules_overrun:
  "i + k > maxModules \<Longrightarrow> i \<le> maxModules \<Longrightarrow> MCP23017_begin_modules k i s ev = None"
proof (induction k arbitrary: i s ev)
  case 0
  then show ?case by simp
next
  case (Suc k)
  show ?case
  proof (cases "maxModules \<le> i")
    case True
    then show ?thesis by simp
  next
    case False
    with Suc.prems have "Suc i + k > maxModules" "Suc i \<le> maxModules" by simp_all
    from Suc.IH[OF this] False show ?thesis by (simp add: Let_def)
  qed
qed

text \<open>
  Claim C9 at a failing input. \<open>MCP23017::createInstance\<close> for 200 pins stores the clamped
  pin count 128, but computes the module count from the 200 pins asked for: 13 modules,
  for arrays of 8. \<open>_begin\<close>, which \<open>addDevice\<close> calls, then writes the arrays at the
  indices 8 to 12. The claim asks for a module count of at most 8 and array accesses within
  bounds; \<open>PCF8574::createInstance\<close> computes the count from the clamped pin count
  (lemma \<open>PCF8574_new_clamps\<close>).
\<close>

theorem MCP23017_module_count_not_clamped:
  "nPins (MCP23017_new mcp_raw 164 200 36) = 128
   \<and> unat (mcp_nModules (MCP23017_new mcp_raw 164 200 36)) = 13
   \<and> maxModules = 8
   \<and> MCP23017_begin (MCP23017_new mcp_raw 164 200 36) = None
   \<and> MCP23017_createInstance mcp_raw [] 164 200 36 = None"
proof -
  have n: "unat (mcp_nModules (MCP23017_new mcp_raw 164 200 36)) = 13"
    by (simp add: MCP23017_new_def cdiv_def)
  have b: "MCP23017_begin (MCP23017_new mcp_raw 164 200 36) = None"
    unfolding MCP23017_begin_def n
    by (rule MCP23017_begin_modules_overrun) (simp_all add: maxModules_def)
  from n b show ?thesis
    by (simp add: MCP23017_createInstance_def addDevice_def maxModules_def)
      (simp add: MCP23017_new_def)
qed

theorem MCP23017_module_count_not_clamped_witness:
  "\<not> unat (mcp_nModules (MCP23017_new mcp_raw 164 200 36)) \<le> maxModules
   \<and> MCP23017_begin (MCP23017_new mcp_raw 164 200 36) = None"
  using MCP23017_module_count_not_clamped by simp

subsection \<open>The dispatcher\<close>




lemma owns_range:
  assumes "0 \<le> dev_nPins dev" "uint (dev_firstID dev) + dev_nPins dev < 65536"
  shows "owns dev vpin \<longleftrightarrow>
           uint (dev_firstID dev) \<le> uint vpin \<and> uint vpin < uint (dev_firstID dev) + dev_nPins dev"
proof -
  have "0 \<le> uint (dev_firstID dev)" by simp
  with assms have "(uint (dev_firstID dev) + dev_nPins dev) mod 65536
      = uint (dev_firstID dev) + dev_nPins dev"
    by (intro mod_pos_pos_trivial) linarith+
  then show ?thesis by (simp add: owns_def word_le_def)
qed

lemma arduino_owns:
  "owns arduino_2_49 vpin \<longleftrightarrow> 2 \<le> uint vpin \<and> uint vpin < 50"
  "owns arduino_100_103 vpin \<longleftrightarrow> 100 \<le> uint vpin \<and> uint vpin < 104"
  by (simp_all add: owns_range arduino_2_49_def arduino_100_103_def)

text \<open>
  Claim C1. When no device of the chain owns the pin, \<open>read\<close> returns false, \<open>write\<close>
  leaves every device as it is, whatever the value, and neither does anything to the
  hardware; \<open>exists\<close> returns false. Owning is the test \<open>owns\<close> of the code, which is
  membership in the range from \<open>firstID\<close> to \<open>firstID + nPins\<close> when that range does not
  run past the 16-bit pin numbers (lemma \<open>owns_range\<close>).
\<close>

theorem dispatch_unowned_pin:
  assumes "\<forall>dev \<in> set chain. \<not> owns dev vpin"
  shows "IODevice_read chain vpin hw = Some (False, chain, [])
       \<and> IODevice_write chain vpin value hw = Some (chain, [])
       \<and> \<not> IODevice_exists chain vpin"
  using assms
proof (induction chain)
  case Nil
  show ?case by simp
next
  case (Cons dev rest)
  then have "\<not> owns dev vpin" and "\<forall>d \<in> set rest. \<not> owns d vpin" by simp_all
  with Cons.IH show ?case by simp
qed

theorem dispatch_unowned_pin_witness:
  "\<not> owns arduino_100_103 60 \<and> \<not> owns arduino_2_49 60
   \<and> IODevice_read [arduino_100_103, arduino_2_49] 60 hw_example
       = Some (False, [arduino_100_103, arduino_2_49], [])
   \<and> IODevice_write [arduino_100_103, arduino_2_49] 60 1 hw_example
       = Some ([arduino_100_103, arduino_2_49], [])
   \<and> \<not> IODevice_exists [arduino_100_103, arduino_2_49] 60"
proof -
  have h: "\<forall>dev \<in> set [arduino_100_103, arduino_2_49]. \<not> owns dev 60"
    by (simp add: arduino_owns)
  from dispatch_unowned_pin[OF h, of hw_example 1] h show ?thesis by simp
qed

lemma dev_begin_shape:
  assumes "dev_begin dev = Some (dev', ev)"
  shows "dev_shape dev' = dev_shape dev"
proof (cases dev)
  case (PCF8574Dev s)
  have b: "PCF8574_begin_modules k i s0 e0 = Some (s1, e1)
      \<Longrightarrow> firstID s1 = firstID s0 \<and> nPins s1 = nPins s0" for k i s0 e0 s1 e1
    by (induction k arbitrary: i s0 e0) (auto split: if_splits)
  from assms PCF8574Dev b show ?thesis
    by (auto simp: dev_shape_def PCF8574_begin_def split: option.splits)
next
  case (MCP23017Dev s)
  have b: "MCP23017_begin_modules k i s0 e0 = Some (s1, e1)
      \<Longrightarrow> firstID s1 = firstID s0 \<and> nPins s1 = nPins s0" for k i s0 e0 s1 e1
    by (induction k arbitrary: i s0 e0) (auto simp: Let_def split: if_splits)
  from assms MCP23017Dev b show ?thesis
    by (auto simp: dev_shape_def MCP23017_begin_def split: option.splits)
qed (use assms in auto)

lemma owns_shape: "dev_shape d' = dev_shape d \<Longrightarrow> owns d' vpin = owns d vpin"
  by (simp add: dev_shape_def owns_def)

lemma isDeletable_shape: "dev_shape d' = dev_shape d \<Longrightarrow> isDeletable d' = isDeletable d"
  by (simp add: dev_shape_def)

lemma servo_unknown_owns:
  "owns (AnalogueDev servo_unknown) vpin \<longleftrightarrow> vpin = 100"
proof -
  have "owns (AnalogueDev servo_unknown) vpin \<longleftrightarrow> 100 \<le> uint vpin \<and> uint vpin < 101"
    by (simp add: owns_range servo_unknown_def)
  also have "\<dots> \<longleftrightarrow> uint vpin = uint (100 :: VPIN)" by auto
  also have "\<dots> \<longleftrightarrow> vpin = 100" by (simp only: word_uint_eq_iff)
  finally show ?thesis .
qed

text \<open>
  Claim C3, as the code has it. \<open>remove\<close> leaves the chain unchanged when no device of it
  both owns the pin and is deletable. Otherwise it takes out the first device in chain
  order that owns the pin and is deletable, and only that one; owners that are not
  deletable, before it or after it, stay where they are.
\<close>

theorem IODevice_remove_first_deletable_owner:
  "((\<forall>dev \<in> set chain. \<not> (owns dev vpin \<and> isDeletable dev))
      \<longrightarrow> IODevice_remove chain vpin = chain)
   \<and> ((\<forall>d \<in> set xs. \<not> (owns d vpin \<and> isDeletable d)) \<and> owns dev vpin \<and> isDeletable dev
      \<longrightarrow> IODevice_remove (xs @ dev # ys) vpin = xs @ ys)"
proof
  show "(\<forall>dev \<in> set chain. \<not> (owns dev vpin \<and> isDeletable dev))
      \<longrightarrow> IODevice_remove chain vpin = chain"
    by (induction chain) auto
  show "(\<forall>d \<in> set xs. \<not> (owns d vpin \<and> isDeletable d)) \<and> owns dev vpin \<and> isDeletable dev
      \<longrightarrow> IODevice_remove (xs @ dev # ys) vpin = xs @ ys"
    by (induction xs) auto
qed

theorem IODevice_remove_first_deletable_owner_witness:
  "\<not> (owns arduino_100_103 100 \<and> isDeletable arduino_100_103)
   \<and> owns (AnalogueDev servo_unknown) 100 \<and> isDeletable (AnalogueDev servo_unknown)
   \<and> IODevice_remove ([arduino_100_103] @ AnalogueDev servo_unknown # [arduino_2_49]) 100
       = [arduino_100_103] @ [arduino_2_49]
   \<and> \<not> (owns arduino_100_103 100 \<and> isDeletable arduino_100_103)
   \<and> \<not> (owns arduino_2_49 100 \<and> isDeletable arduino_2_49)
   \<and> IODevice_remove [arduino_100_103, arduino_2_49] 100 = [arduino_100_103, arduino_2_49]"
proof -
  have n: "\<not> isDeletable arduino_100_103" "\<not> isDeletable arduino_2_49"
    by (simp_all add: arduino_100_103_def arduino_2_49_def)
  have o: "owns (AnalogueDev servo_unknown) 100" by (simp add: servo_unknown_owns)
  from IODevice_remove_first_deletable_owner[of "[arduino_100_103, arduino_2_49]" 100
      "[arduino_100_103]" "AnalogueDev servo_unknown" "[arduino_2_49]"] n o
  show ?thesis by simp
qed

text \<open>
  The claim says that \<open>remove\<close> changes nothing when the first owner of the pin is not
  deletable. Here the first owner of pin 100 is a block of Arduino pins, which is not
  deletable, and \<open>remove\<close> takes out the servo behind it.
\<close>

theorem IODevice_remove_passes_over_counterexample:
  "owns arduino_100_103 100 \<and> \<not> isDeletable arduino_100_103
   \<and> IODevice_remove [arduino_100_103, AnalogueDev servo_unknown, arduino_2_49] 100
       = [arduino_100_103, arduino_2_49]
   \<and> [arduino_100_103, AnalogueDev servo_unknown, arduino_2_49] \<noteq> [arduino_100_103, arduino_2_49]"
  by (simp add: arduino_owns servo_unknown_owns) (simp add: arduino_100_103_def)

lemma IODevice_remove_skip:
  assumes "\<forall>d \<in> set xs. \<not> (owns d vpin \<and> isDeletable d)" "owns dev vpin" "isDeletable dev"
  shows "IODevice_remove (xs @ dev # ys) vpin = xs @ ys"
  using assms by (induction xs) auto

lemma deletable_owners_remove:
  "deletable_owners (IODevice_remove chain vpin) vpin = tl (deletable_owners chain vpin)"
  by (induction chain) (auto simp: deletable_owners_def)

lemma deletable_owners_remove_le:
  "length (deletable_owners (IODevice_remove chain vpin) q) \<le> length (deletable_owners chain q)"
  by (induction chain) (auto simp: deletable_owners_def)

lemma Analogue_new_owns:
  "owns (AnalogueDev (Analogue_new raw vpin)) q \<longleftrightarrow> q = vpin \<and> vpin \<noteq> 65535"
proof (cases "vpin = 65535")
  case True
  then show ?thesis by (simp add: owns_def Analogue_new_def)
next
  case False
  have "uint vpin < 65536" using uint_bounded[of vpin] by simp
  moreover have "uint vpin \<noteq> 65535"
  proof
    assume "uint vpin = 65535"
    then have "uint vpin = uint (65535 :: VPIN)" by simp
    then have "vpin = 65535" by (simp only: word_uint_eq_iff)
    with False show False by simp
  qed
  ultimately have lt: "uint vpin + 1 < 65536" by simp
  have "owns (AnalogueDev (Analogue_new raw vpin)) q
      \<longleftrightarrow> uint vpin \<le> uint q \<and> uint q < uint vpin + 1"
    using lt by (simp add: owns_range Analogue_new_def)
  also have "\<dots> \<longleftrightarrow> uint q = uint vpin" by auto
  also have "\<dots> \<longleftrightarrow> q = vpin" by (simp only: word_uint_eq_iff)
  finally show ?thesis using False by simp
qed

lemma deletable_owners_shape:
  assumes "map dev_shape c' = map dev_shape c"
  shows "length (deletable_owners c' vpin) = length (deletable_owners c vpin)"
proof -
  let ?P = "\<lambda>sh :: VPIN \<times> int \<times> bool.
      (fst sh \<le> vpin \<and> uint vpin < (uint (fst sh) + fst (snd sh)) mod 65536) \<and> snd (snd sh)"
  have e: "deletable_owners x vpin = filter (?P \<circ> dev_shape) x" for x
    by (simp add: deletable_owners_def owns_def dev_shape_def comp_def)
  have f: "length (filter (?P \<circ> dev_shape) x) = length (filter ?P (map dev_shape x))" for x
    by (simp add: filter_map)
  show ?thesis unfolding e f assms ..
qed

lemma one_deletable_owner_shape:
  "map dev_shape c' = map dev_shape c \<Longrightarrow> one_deletable_owner c' = one_deletable_owner c"
  using deletable_owners_shape[of c' c] by (simp add: one_deletable_owner_def)

lemma one_deletable_owner_Nil: "one_deletable_owner []"
  by (simp add: one_deletable_owner_def deletable_owners_def)

lemma one_deletable_owner_remove:
  assumes "one_deletable_owner chain"
  shows "one_deletable_owner (IODevice_remove chain vpin)"
  unfolding one_deletable_owner_def
proof
  fix q
  from assms have "length (deletable_owners chain q) \<le> 1" by (simp add: one_deletable_owner_def)
  with deletable_owners_remove_le[of chain vpin q]
  show "length (deletable_owners (IODevice_remove chain vpin) q) \<le> 1" by linarith
qed

lemma one_deletable_owner_add:
  assumes "one_deletable_owner chain" "\<not> isDeletable dev"
    "addDevice dev chain = Some (chain', ev)"
  shows "one_deletable_owner chain'"
proof -
  from assms(3) obtain dev' where b: "dev_begin dev = Some (dev', ev)" and c: "chain' = dev' # chain"
    by (auto simp: addDevice_def split: option.splits)
  from isDeletable_shape[OF dev_begin_shape[OF b]] assms(2) have "\<not> isDeletable dev'" by simp
  with assms(1) c show ?thesis by (simp add: one_deletable_owner_def deletable_owners_def)
qed

lemma deletable_owners_remove_Nil:
  assumes "one_deletable_owner chain"
  shows "deletable_owners (IODevice_remove chain vpin) vpin = []"
proof -
  from assms have "length (deletable_owners chain vpin) \<le> 1" by (simp add: one_deletable_owner_def)
  then have "tl (deletable_owners chain vpin) = []"
    by (cases "deletable_owners chain vpin") simp_all
  then show ?thesis by (simp add: deletable_owners_remove)
qed

lemma one_deletable_owner_Analogue_createInstance:
  assumes inv: "one_deletable_owner chain"
  shows "one_deletable_owner (Analogue_createInstance raw chain vpin)"
  unfolding one_deletable_owner_def
proof
  fix q
  have c: "Analogue_createInstance raw chain vpin
           = AnalogueDev (Analogue_new raw vpin) # IODevice_remove chain vpin"
    by (simp add: Analogue_createInstance_def)
  show "length (deletable_owners (Analogue_createInstance raw chain vpin) q) \<le> 1"
  proof (cases "q = vpin")
    case True
    with deletable_owners_remove_Nil[OF inv, of vpin] show ?thesis
      unfolding c by (simp add: deletable_owners_def)
  next
    case False
    then have "\<not> owns (AnalogueDev (Analogue_new raw vpin)) q" by (simp add: Analogue_new_owns)
    moreover from one_deletable_owner_remove[OF inv, of vpin]
    have "length (deletable_owners (IODevice_remove chain vpin) q) \<le> 1"
      by (simp add: one_deletable_owner_def)
    ultimately show ?thesis unfolding c by (simp add: deletable_owners_def)
  qed
qed

text \<open>
  Claim C10. \<open>Analogue::createInstance\<close> on a pin links the new device at the head of what
  \<open>remove\<close> leaves of the chain. In a chain where no pin has two deletable owners, a
  deletable owner of the pin is taken out, wherever it stands; afterwards the only
  deletable owner of the pin is the new device (none for the pin number 65535, which a
  device of one pin starting there does not own), and again no pin has two deletable
  owners. The chains that the program builds have this property: the empty chain has it
  and every operation keeps it (the lemmas \<open>one_deletable_owner_...\<close> around this
  theorem).
\<close>

theorem Analogue_createInstance_replaces:
  assumes inv: "one_deletable_owner chain"
  shows "Analogue_createInstance raw chain vpin
           = AnalogueDev (Analogue_new raw vpin) # IODevice_remove chain vpin
       \<and> ((\<forall>d \<in> set xs. \<not> (owns d vpin \<and> isDeletable d)) \<and> owns old vpin \<and> isDeletable old
            \<and> chain = xs @ old # ys
          \<longrightarrow> Analogue_createInstance raw chain vpin = AnalogueDev (Analogue_new raw vpin) # xs @ ys)
       \<and> deletable_owners (IODevice_remove chain vpin) vpin = []
       \<and> deletable_owners (Analogue_createInstance raw chain vpin) vpin
           = (if vpin = 65535 then [] else [AnalogueDev (Analogue_new raw vpin)])
       \<and> one_deletable_owner (Analogue_createInstance raw chain vpin)"
proof (intro conjI impI)
  show c: "Analogue_createInstance raw chain vpin
           = AnalogueDev (Analogue_new raw vpin) # IODevice_remove chain vpin"
    by (simp add: Analogue_createInstance_def)
  show r: "deletable_owners (IODevice_remove chain vpin) vpin = []"
    by (rule deletable_owners_remove_Nil[OF inv])
  show "deletable_owners (Analogue_createInstance raw chain vpin) vpin
           = (if vpin = 65535 then [] else [AnalogueDev (Analogue_new raw vpin)])"
  proof (cases "vpin = 65535")
    case True
    with r Analogue_new_owns[of raw vpin vpin] show ?thesis
      unfolding c by (simp add: deletable_owners_def)
  next
    case False
    with r Analogue_new_owns[of raw vpin vpin] show ?thesis
      unfolding c by (simp add: deletable_owners_def Analogue_new_def)
  qed
  show "one_deletable_owner (Analogue_createInstance raw chain vpin)"
    by (rule one_deletable_owner_Analogue_createInstance[OF inv])
next
  assume a: "(\<forall>d \<in> set xs. \<not> (owns d vpin \<and> isDeletable d)) \<and> owns old vpin \<and> isDeletable old
            \<and> chain = xs @ old # ys"
  then have p: "\<forall>d \<in> set xs. \<not> (owns d vpin \<and> isDeletable d)" "owns old vpin" "isDeletable old"
    by simp_all
  have "IODevice_remove (xs @ old # ys) vpin = xs @ ys"
    by (rule IODevice_remove_skip[OF p])
  with a show "Analogue_createInstance raw chain vpin = AnalogueDev (Analogue_new raw vpin) # xs @ ys"
    by (simp add: Analogue_createInstance_def)
qed

lemma PCF8574_write_fields:
  "PCF8574_write s vpin value = Some (s', ev) \<Longrightarrow> firstID s' = firstID s \<and> nPins s' = nPins s"
  by (auto simp: PCF8574_write_def Let_def split: if_splits)

lemma PCF8574_read_fields:
  "PCF8574_read s vpin reply = Some (r, s', ev) \<Longrightarrow> firstID s' = firstID s \<and> nPins s' = nPins s"
  by (auto simp: PCF8574_read_def Let_def split: if_splits)

lemma MCP23017_write_fields:
  "MCP23017_write s vpin value = Some (s', ev) \<Longrightarrow> firstID s' = firstID s \<and> nPins s' = nPins s"
  by (auto simp: MCP23017_write_def Let_def split: if_splits)

lemma MCP23017_read_fields:
  "MCP23017_read s vpin reply = Some (r, s', ev) \<Longrightarrow> firstID s' = firstID s \<and> nPins s' = nPins s"
  by (auto simp: MCP23017_read_def Let_def split: if_splits)

lemma updatePosition_fields:
  "updatePosition a = Some (a', ws) \<Longrightarrow> firstID a' = firstID a \<and> nPins a' = nPins a"
  by (cases "profile a") (auto simp: updatePosition_def split: if_splits)

lemma Analogue_write_fields:
  assumes "Analogue_write a vpin value ms = Some (a', ws)"
  shows "firstID a' = firstID a \<and> nPins a' = nPins a"
proof (cases "state a = - 1")
  case True
  with assms updatePosition_fields show ?thesis
    by (fastforce simp: Analogue_write_def Let_def)
next
  case False
  show ?thesis
  proof (cases "state a = (if value \<noteq> 0 then 1 else value)")
    case True
    with False assms show ?thesis by (simp add: Analogue_write_def Let_def)
  next
    case ne: False
    let ?a1 = "(case profile a of
                    Instant \<Rightarrow> a\<lparr>numSteps := 1\<rparr>
                  | Fast \<Rightarrow> a\<lparr>numSteps := 10\<rparr>
                  | Medium \<Rightarrow> a\<lparr>numSteps := 20\<rparr>
                  | Slow \<Rightarrow> a\<lparr>numSteps := 40\<rparr>
                  | Bounce \<Rightarrow> a\<lparr>numSteps := length profile_table\<rparr>
                  | Unlisted \<Rightarrow> a\<lparr>profile := Fast, numSteps := 10\<rparr>)"
    have f1: "firstID ?a1 = firstID a \<and> nPins ?a1 = nPins a" by (cases "profile a") simp_all
    from assms False ne obtain a3 where
      u: "updatePosition (?a1\<lparr>state := (if value \<noteq> 0 then 1 else value), stepNumber := 0,
             fromPosition := currentPosition ?a1,
             toPosition := (if (if value \<noteq> 0 then 1 else value) \<noteq> 0 then activePosition ?a1
                            else inactivePosition ?a1)\<rparr>) = Some (a3, ws)"
      and e: "a' = a3\<lparr>lastRefreshTime := ucast ms\<rparr>"
      by (auto simp: Analogue_write_def Let_def split: option.splits)
    from updatePosition_fields[OF u] f1 e show ?thesis by simp
  qed
qed

lemma Analogue_configure_fields:
  "Analogue_configure a vpin paramCount params = Some (r, a', ws)
     \<Longrightarrow> firstID a' = firstID a \<and> nPins a' = nPins a"
  by (auto simp: Analogue_configure_def Analogue_configure5_def Let_def split: if_splits)

lemma IODevice_write_shape:
  "IODevice_write chain vpin value hw = Some (chain', ev)
     \<Longrightarrow> map dev_shape chain' = map dev_shape chain"
proof (induction chain arbitrary: vpin "value" chain' ev)
  case Nil
  then show ?case by simp
next
  case (Cons dev rest)
  show ?case
  proof (cases "owns dev vpin")
    case False
    with Cons.prems obtain rest' where
      r: "IODevice_write rest vpin value hw = Some (rest', ev)" and c: "chain' = dev # rest'"
      by (auto split: option.splits)
    from Cons.IH[OF r] c show ?thesis by simp
  next
    case True
    show ?thesis
    proof (cases dev)
      case (ArduinoPinsDev f)
      with True Cons.prems show ?thesis by auto
    next
      case (PCF8574Dev s)
      with True Cons.prems PCF8574_write_fields show ?thesis
        by (fastforce simp: dev_shape_def split: option.splits)
    next
      case (MCP23017Dev s)
      with True Cons.prems MCP23017_write_fields show ?thesis
        by (fastforce simp: dev_shape_def split: option.splits)
    next
      case (AnalogueDev a)
      from True Cons.prems AnalogueDev obtain a' ws where
        w: "Analogue_write a vpin value (millis hw) = Some (a', ws)"
        by (auto split: option.splits)
      note f = Analogue_write_fields[OF w]
      show ?thesis
      proof (cases ws)
        case Nil
        with True Cons.prems AnalogueDev w f show ?thesis by (auto simp: dev_shape_def)
      next
        case (Cons pv more)
        obtain pin v where pv: "pv = (pin, v)" by (cases pv)
        from True Cons.prems AnalogueDev w Cons pv obtain rest' where
          r: "IODevice_write rest pin v hw = Some (rest', ev)"
          and c: "chain' = AnalogueDev a' # rest'"
          by (auto split: option.splits)
        have h: "dev_shape (AnalogueDev a') = dev_shape dev"
          using f AnalogueDev by (simp add: dev_shape_def)
        from Cons.IH[OF r] c h show ?thesis by simp
      qed
    qed
  qed
qed

lemma IODevice_read_shape:
  "IODevice_read chain vpin hw = Some (r, chain', ev)
     \<Longrightarrow> map dev_shape chain' = map dev_shape chain"
proof (induction chain arbitrary: r chain' ev)
  case Nil
  then show ?case by simp
next
  case (Cons dev rest)
  show ?case
  proof (cases "owns dev vpin")
    case False
    with Cons.prems obtain rest' where
      r: "IODevice_read rest vpin hw = Some (r, rest', ev)" and c: "chain' = dev # rest'"
      by (auto split: option.splits)
    from Cons.IH[OF r] c show ?thesis by simp
  next
    case True
    show ?thesis
    proof (cases dev)
      case (ArduinoPinsDev f)
      with True Cons.prems show ?thesis by (auto split: prod.splits)
    next
      case (PCF8574Dev s)
      with True Cons.prems PCF8574_read_fields show ?thesis
        by (fastforce simp: dev_shape_def split: option.splits)
    next
      case (MCP23017Dev s)
      with True Cons.prems MCP23017_read_fields show ?thesis
        by (fastforce simp: dev_shape_def split: option.splits)
    next
      case (AnalogueDev a)
      with True Cons.prems show ?thesis by auto
    qed
  qed
qed

lemma IODevice_configure_shape:
  "IODevice_configure chain vpin paramCount params hw = Some (r, chain', ev)
     \<Longrightarrow> map dev_shape chain' = map dev_shape chain"
proof (induction chain arbitrary: r chain' ev)
  case Nil
  then show ?case by simp
next
  case (Cons dev rest)
  show ?case
  proof (cases "owns dev vpin")
    case False
    with Cons.prems obtain rest' where
      r: "IODevice_configure rest vpin paramCount params hw = Some (r, rest', ev)"
      and c: "chain' = dev # rest'"
      by (auto split: option.splits)
    from Cons.IH[OF r] c show ?thesis by simp
  next
    case True
    show ?thesis
    proof (cases dev)
      case (AnalogueDev a)
      from True Cons.prems AnalogueDev obtain a' ws where
        w: "Analogue_configure a vpin paramCount params = Some (r, a', ws)"
        by (auto split: option.splits list.splits)
      note f = Analogue_configure_fields[OF w]
      show ?thesis
      proof (cases ws)
        case Nil
        with True Cons.prems AnalogueDev w f show ?thesis by (auto simp: dev_shape_def)
      next
        case (Cons pv more)
        obtain pin v where pv: "pv = (pin, v)" by (cases pv)
        from True Cons.prems AnalogueDev w Cons pv obtain rest' where
          r: "IODevice_write rest pin v hw = Some (rest', ev)"
          and c: "chain' = AnalogueDev a' # rest'"
          by (auto split: option.splits)
        have h: "dev_shape (AnalogueDev a') = dev_shape dev"
          using f AnalogueDev by (simp add: dev_shape_def)
        from IODevice_write_shape[OF r] c h show ?thesis by simp
      qed
    qed (use True Cons.prems in auto)
  qed
qed

lemma one_deletable_owner_write:
  "one_deletable_owner chain \<Longrightarrow> IODevice_write chain vpin value hw = Some (chain', ev)
     \<Longrightarrow> one_deletable_owner chain'"
  using one_deletable_owner_shape[OF IODevice_write_shape] by blast

lemma one_deletable_owner_read:
  "one_deletable_owner chain \<Longrightarrow> IODevice_read chain vpin hw = Some (r, chain', ev)
     \<Longrightarrow> one_deletable_owner chain'"
  using one_deletable_owner_shape[OF IODevice_read_shape] by blast

lemma one_deletable_owner_configure:
  "one_deletable_owner chain
     \<Longrightarrow> IODevice_configure chain vpin paramCount params hw = Some (r, chain', ev)
     \<Longrightarrow> one_deletable_owner chain'"
  using one_deletable_owner_shape[OF IODevice_configure_shape] by blast

lemma one_deletable_owner_ArduinoPins_create:
  "one_deletable_owner chain \<Longrightarrow> ArduinoPins_create chain vpin n = Some (chain', ev)
     \<Longrightarrow> one_deletable_owner chain'"
  unfolding ArduinoPins_create_def by (rule one_deletable_owner_add) simp_all

lemma one_deletable_owner_MCP23017_createInstance:
  "one_deletable_owner chain \<Longrightarrow> MCP23017_createInstance raw chain vpin n addr = Some (chain', ev)
     \<Longrightarrow> one_deletable_owner chain'"
  unfolding MCP23017_createInstance_def by (rule one_deletable_owner_add) simp_all

lemma one_deletable_owner_PCF8574_createInstance:
  "one_deletable_owner chain \<Longrightarrow> PCF8574_createInstance raw chain vpin n addr = Some (chain', ev)
     \<Longrightarrow> one_deletable_owner chain'"
proof -
  assume inv: "one_deletable_owner chain"
    and cr: "PCF8574_createInstance raw chain vpin n addr = Some (chain', ev)"
  from cr obtain s2 where "chain' = PCF8574Dev s2 # chain"
    by (auto simp: PCF8574_createInstance_def split: option.splits)
  with inv show ?thesis by (simp add: one_deletable_owner_def deletable_owners_def)
qed

text \<open>
  \<open>IODevice::loop\<close> calls \<open>_loop\<close> of every device. \<open>PCF8574::_loop\<close> changes counters
  only, and \<open>Analogue::_loop\<close> calls \<open>updatePosition\<close> and \<open>writeDownstream\<close>: neither
  touches the links of the chain, a first pin or a pin count.
\<close>

lemma PCF8574_loop_fields:
  "PCF8574_loop s currentMicros = Some s' \<Longrightarrow> firstID s' = firstID s \<and> nPins s' = nPins s"
  by (auto simp: PCF8574_loop_def Let_def split: if_splits option.splits)

lemma one_deletable_owner_Analogue_create:
  assumes inv: "one_deletable_owner chain"
    and cr: "Analogue_create raw chain vpin dpin act inact prof initialState hw = Some (chain', ev)"
  shows "one_deletable_owner chain'"
proof -
  let ?a = "fst (Analogue_configure5 ((Analogue_new raw vpin)\<lparr>state := uint initialState\<rparr>)
                  vpin dpin act inact prof)"
  have h: "dev_shape (AnalogueDev ?a) = dev_shape (AnalogueDev (Analogue_new raw vpin))"
    by (simp add: dev_shape_def Analogue_configure5_def Analogue_new_def Let_def)
  from cr obtain rest' ev' where
    w: "IODevice_write (IODevice_remove chain vpin) vpin
          (sint (if uint initialState \<noteq> 0 then act else inact)) hw = Some (rest', ev')"
    and c: "chain' = AnalogueDev ?a # rest'"
    by (auto simp: Analogue_create_def Analogue_configure5_def Let_def split: option.splits)
  from IODevice_write_shape[OF w] c h
  have "map dev_shape chain' = map dev_shape (Analogue_createInstance raw chain vpin)"
    by (simp add: Analogue_createInstance_def)
  from one_deletable_owner_shape[OF this] one_deletable_owner_Analogue_createInstance[OF inv]
  show ?thesis by simp
qed

lemma example_chain_one_deletable_owner:
  "one_deletable_owner [arduino_100_103, AnalogueDev servo_unknown, arduino_2_49]"
proof -
  have n: "\<not> isDeletable arduino_100_103" "\<not> isDeletable arduino_2_49"
    by (simp_all add: arduino_100_103_def arduino_2_49_def)
  then show ?thesis by (simp add: one_deletable_owner_def deletable_owners_def)
qed

theorem Analogue_createInstance_replaces_witness:
  "one_deletable_owner [arduino_100_103, AnalogueDev servo_unknown, arduino_2_49]
   \<and> \<not> (owns arduino_100_103 100 \<and> isDeletable arduino_100_103)
   \<and> owns (AnalogueDev servo_unknown) 100 \<and> isDeletable (AnalogueDev servo_unknown)
   \<and> Analogue_createInstance servo_unknown
         [arduino_100_103, AnalogueDev servo_unknown, arduino_2_49] 100
       = [AnalogueDev (Analogue_new servo_unknown 100), arduino_100_103, arduino_2_49]
   \<and> deletable_owners (Analogue_createInstance servo_unknown
         [arduino_100_103, AnalogueDev servo_unknown, arduino_2_49] 100) 100
       = [AnalogueDev (Analogue_new servo_unknown 100)]"
proof -
  let ?chain = "[arduino_100_103, AnalogueDev servo_unknown, arduino_2_49]"
  have n: "\<not> isDeletable arduino_100_103" by (simp add: arduino_100_103_def)
  have o: "owns (AnalogueDev servo_unknown) 100" by (simp add: servo_unknown_owns)
  have c: "?chain = [arduino_100_103] @ AnalogueDev servo_unknown # [arduino_2_49]" by simp
  note t = Analogue_createInstance_replaces[OF example_chain_one_deletable_owner,
      where xs = "[arduino_100_103]" and vpin = 100 and old = "AnalogueDev servo_unknown"
        and ys = "[arduino_2_49]" and raw = servo_unknown]
  have d: "isDeletable (AnalogueDev servo_unknown)" by simp
  have p: "\<forall>dev \<in> set [arduino_100_103]. \<not> (owns dev 100 \<and> isDeletable dev)"
    using n by simp
  from t have "(\<forall>dev \<in> set [arduino_100_103]. \<not> (owns dev 100 \<and> isDeletable dev))
        \<and> owns (AnalogueDev servo_unknown) 100 \<and> isDeletable (AnalogueDev servo_unknown)
        \<and> ?chain = [arduino_100_103] @ AnalogueDev servo_unknown # [arduino_2_49]
      \<longrightarrow> Analogue_createInstance servo_unknown ?chain 100
          = AnalogueDev (Analogue_new servo_unknown 100) # [arduino_100_103] @ [arduino_2_49]"
    by blast
  with p o d c have e1: "Analogue_createInstance servo_unknown ?chain 100
          = AnalogueDev (Analogue_new servo_unknown 100) # [arduino_100_103] @ [arduino_2_49]"
    by blast
  from t have "deletable_owners (Analogue_createInstance servo_unknown ?chain 100) 100
       = (if (100 :: VPIN) = 65535 then [] else [AnalogueDev (Analogue_new servo_unknown 100)])"
    by blast
  then have e2: "deletable_owners (Analogue_createInstance servo_unknown ?chain 100) 100
       = [AnalogueDev (Analogue_new servo_unknown 100)]"
    by simp
  have e1': "AnalogueDev (Analogue_new servo_unknown 100) # [arduino_100_103] @ [arduino_2_49]
      = [AnalogueDev (Analogue_new servo_unknown 100), arduino_100_103, arduino_2_49]"
    by simp
  from example_chain_one_deletable_owner n o d e1[unfolded e1'] e2 show ?thesis by blast
qed

subsection \<open>Two devices on one pin\<close>


lemma IODevice_remove_shape:
  "map dev_shape c' = map dev_shape c
     \<Longrightarrow> map dev_shape (IODevice_remove c' vpin) = map dev_shape (IODevice_remove c vpin)"
proof (induction c arbitrary: c')
  case Nil
  then show ?case by simp
next
  case (Cons d r)
  then obtain d' r' where c': "c' = d' # r'" and sd: "dev_shape d' = dev_shape d"
    and sr: "map dev_shape r' = map dev_shape r"
    by (cases c') auto
  from owns_shape[OF sd, of vpin] isDeletable_shape[OF sd] Cons.IH[OF sr] sd sr c'
  show ?case by simp
qed


lemma one_deletable_owner_create_device:
  assumes "one_deletable_owner chain" "create_device req chain hw = Some (chain', ev)"
  shows "one_deletable_owner chain'"
proof (cases req)
  case (CreateArduinoPins vpin n)
  with assms one_deletable_owner_ArduinoPins_create show ?thesis by simp
next
  case (CreatePCF8574 raw vpin n addr)
  with assms one_deletable_owner_PCF8574_createInstance show ?thesis by simp
next
  case (CreateMCP23017 raw vpin n addr)
  with assms one_deletable_owner_MCP23017_createInstance show ?thesis by simp
next
  case (CreateAnalogueInstance raw vpin)
  with assms one_deletable_owner_Analogue_createInstance show ?thesis by auto
next
  case (CreateAnalogue raw vpin dpin act inact prof initialState)
  with assms one_deletable_owner_Analogue_create show ?thesis by simp
qed





subsection \<open>The invariant and the pins of a new PCF8574 device\<close>

text \<open>
  \<open>_begin\<close> establishes the invariant \<open>PCF8574_inv\<close> on an object whose module count
  fits the arrays, and every pin that the dispatcher hands to a device created for a
  non-negative pin count is a pin of a module in use.
\<close>

lemma PCF8574_begin_modules_ok:
  assumes "i + k \<le> maxModules" "PCF8574_arrays s"
  shows "\<exists>s' ev'. PCF8574_begin_modules k i s ev = Some (s', ev')
          \<and> PCF8574_arrays s' \<and> nModules s' = nModules s \<and> firstID s' = firstID s
          \<and> nPins s' = nPins s \<and> I2CAddress s' = I2CAddress s
          \<and> (\<forall>j < length (portCounter s). portCounter s' ! j
                 = (if i \<le> j \<and> j < i + k then 0 else portCounter s ! j))"
  using assms
proof (induction k arbitrary: i s ev)
  case 0
  then show ?case by auto
next
  case (Suc k)
  let ?s1 = "s\<lparr>portInputState := (portInputState s)[i := 0],
               portOutputState := (portOutputState s)[i := 0],
               portCounter := (portCounter s)[i := 0]\<rparr>"
  from Suc.prems have i: "\<not> maxModules \<le> i" and le: "Suc i + k \<le> maxModules" by simp_all
  from Suc.prems(2) have a1: "PCF8574_arrays ?s1" by (simp add: PCF8574_arrays_def)
  from Suc.IH[OF le a1, of "ev @ [I2C_exists (uint (I2CAddress s) + int i)]"]
  obtain s' ev' where
    r: "PCF8574_begin_modules k (Suc i) ?s1 (ev @ [I2C_exists (uint (I2CAddress s) + int i)])
          = Some (s', ev')"
    and p: "PCF8574_arrays s'" "nModules s' = nModules s" "firstID s' = firstID s"
      "nPins s' = nPins s" "I2CAddress s' = I2CAddress s"
    and v: "\<forall>j < length (portCounter s). portCounter s' ! j
                 = (if Suc i \<le> j \<and> j < Suc i + k then 0 else (portCounter s)[i := 0] ! j)"
    by auto
  have e: "PCF8574_begin_modules (Suc k) i s ev = Some (s', ev')" using i r by simp
  have "\<forall>j < length (portCounter s). portCounter s' ! j
                 = (if i \<le> j \<and> j < i + Suc k then 0 else portCounter s ! j)"
  proof (intro allI impI)
    fix j assume j: "j < length (portCounter s)"
    show "portCounter s' ! j = (if i \<le> j \<and> j < i + Suc k then 0 else portCounter s ! j)"
    proof (cases "j = i")
      case True
      with v j show ?thesis by simp
    next
      case False
      with v j show ?thesis by auto
    qed
  qed
  with e p show ?case by blast
qed

lemma PCF8574_begin_inv:
  assumes "PCF8574_arrays s" "unat (nModules s) \<le> maxModules"
  shows "\<exists>s' ev. PCF8574_begin s = Some (s', ev) \<and> PCF8574_inv s'
          \<and> nModules s' = nModules s \<and> firstID s' = firstID s \<and> nPins s' = nPins s"
proof -
  from assms(2) have "0 + unat (nModules s) \<le> maxModules" by simp
  from PCF8574_begin_modules_ok[OF this assms(1), of "[I2C_begin, I2C_setClock 100000]"]
  obtain s' ev' where
    r: "PCF8574_begin s = Some (s', ev')"
    and p: "PCF8574_arrays s'" "nModules s' = nModules s" "firstID s' = firstID s"
      "nPins s' = nPins s"
    and v: "\<forall>j < length (portCounter s). portCounter s' ! j
                 = (if 0 \<le> j \<and> j < 0 + unat (nModules s) then 0 else portCounter s ! j)"
    by (auto simp: PCF8574_begin_def)
  from assms have "unat (nModules s) \<le> length (portCounter s)" by (simp add: PCF8574_arrays_def)
  with v have "\<forall>j < unat (nModules s'). portCounter s' ! j = 0" using p(2) by auto
  with p assms(2) have "PCF8574_inv s'" by (simp add: inv_zero_iff)
  with r p show ?thesis by blast
qed

lemma range_nowrap:
  fixes a m v :: int
  assumes "0 \<le> a" "a < 65536" "0 \<le> m" "m \<le> 64" "a \<le> v" "v < (a + m) mod 65536"
  shows "v < a + m"
proof (cases "a + m < 65536")
  case True
  with assms have "(a + m) mod 65536 = a + m" by simp
  with assms show ?thesis by simp
next
  case False
  define x where "x = a + m - 65536"
  with False assms have x: "0 \<le> x" "x < 65536" "a + m = x + 65536" by simp_all
  have "(x + 65536) mod 65536 = x mod 65536" by simp
  also have "\<dots> = x" using x by simp
  finally have "(a + m) mod 65536 = x" unfolding x(3) .
  with assms x_def show ?thesis by simp
qed

lemma PCF8574_owned_pin_ok:
  assumes n: "0 \<le> n" and o: "owns (PCF8574Dev (PCF8574_new raw first n addr)) vpin"
  shows "PCF8574_pin_ok (PCF8574_new raw first n addr) vpin"
proof -
  let ?s = "PCF8574_new raw first n addr"
  let ?m = "min n 64"
  note c = PCF8574_new_clamps[OF n, of raw first addr]
  have f: "firstID ?s = first" "nPins ?s = ?m" by (simp_all add: PCF8574_new_def)
  from n have m: "0 \<le> ?m" "?m \<le> 64" by simp_all
  from o have le: "first \<le> vpin" and lt: "uint vpin < (uint first + ?m) mod 65536"
    by (simp_all add: owns_def f)
  from le have ule: "uint first \<le> uint vpin" by (simp add: word_le_def)
  have b: "0 \<le> uint first" "uint first < 65536" using uint_bounded[of first] by simp_all
  from range_nowrap[OF b m ule lt] have lt': "uint vpin < uint first + ?m" .
  from ule have d: "uint (vpin - first) = uint vpin - uint first"
    by (simp only: uint_sub_lem[symmetric])
  from d lt' ule have r: "0 \<le> uint (vpin - first)" "uint (vpin - first) < ?m" by linarith+
  have iu: "int (unat (vpin - first)) = uint (vpin - first)" by simp
  from r m have "uint (vpin - first) < 32768" by linarith
  with iu have "unat (vpin - first) < 32768" by linarith
  from sint16_small[OF this] iu have s: "sint (vpin - first) = uint (vpin - first)"
    by (simp only:)
  from r have "uint (vpin - first) div 8 < (?m + 7) div 8" by linarith
  moreover from c m have "int (unat (nModules ?s)) = (?m + 7) div 8"
    by (simp only: int_nat_eq) simp
  ultimately have "uint (vpin - first) div 8 < int (unat (nModules ?s))" by (simp only:)
  with r(1) show ?thesis
    unfolding PCF8574_pin_ok_def PCF8574_module_def f s cdiv_nonneg[OF r(1)] by blast
qed

end
